theory Spec2Isabelle
  imports Main "HOL-Library.List_Lexorder" "HOL-Library.Char_ord"
begin

section \<open>The object store, the host and their errors\<close>

text \<open>
  The package \<open>sthree\<close> talks to a remote bucket through the \<open>goamz\<close> client and to the
  local machine through the Go standard library. Both are outside the repository, so the
  model makes them explicit: every call of \<open>b.bucket\<close> is a value of \<open>call\<close>, appended to the
  trace \<open>calls\<close> of the world, and answered from the bucket's \<open>objects\<close>. Whether the
  \<open>k\<close>-th invocation of one call fails (network or service failure) is read from the
  oracle \<open>fault\<close>: \<open>fault w c k\<close> says that the invocation of \<open>c\<close> that comes after \<open>k\<close> earlier
  invocations of the same call fails.

  The pauses between retries (\<open>time.Sleep\<close> with the backoff) and the debug-level log
  lines have no effect on results and are left out.
\<close>

datatype call =
    ListCall string string string nat
  | ExistsCall string
  | PutCall string string string string
  | GetCall string
  | DelCall string
  | DelMultiCall "string list"

text \<open>
  Errors are values, one constructor for each message of the source, with the values
  that the message formats: \<open>ErrExistsAttempt e path name i\<close> is
  \<open>errors.Wrapf(e, "error s3.EXISTS for %s/%s on attempt %d", path, name, i)\<close>,
  \<open>ErrPutExhausted name path n errs\<close> is
  \<open>"could not upload %s/%s in %d attempts. Errors: %s"\<close> with the errors of the catcher,
  \<open>ErrGetExhausted\<close> the same for \<open>"could not download ..."\<close>, \<open>ErrNumRetries n\<close> is
  \<open>"numRetries=%d, must be larger than 0"\<close>, \<open>ErrIntermediateDelete\<close> and
  \<open>ErrLastDelete\<close> wrap the error of a bulk delete, \<open>ErrCatcher\<close> is what
  \<open>catcher.Resolve()\<close> makes of the collected errors. \<open>S3Error c\<close> is the failure of the
  remote call \<open>c\<close>, \<open>NoSuchKey\<close> the answer to a \<open>Get\<close> of a key that is not there,
  \<open>OsError\<close> a failure of the local file system. Wrapping \<open>nil\<close> gives \<open>nil\<close>: an
  \<open>error option\<close> is mapped with \<open>map_option\<close>.
\<close>

datatype error =
    S3Error call
  | NoSuchKey string
  | OsError string
  | RegexpError string
  | QueueError int
  | ErrNumJobs int
  | ErrNumRetries int
  | ErrStartQueue error
  | ErrExistsAttempt error string string int
  | ErrFileNotExist string
  | ErrReadFile error string
  | ErrPutAttempt error string string int
  | ErrPutExhausted string string int "error list"
  | ErrGetAws error
  | ErrGetExhausted string string int "error list"
  | ErrGetMkdir error
  | ErrGetWrite error string
  | ErrDelete error string string
  | ErrSingleDelete error
  | ErrCompile error string string
  | ErrIntermediateDelete error string nat
  | ErrLastDelete error string nat
  | ErrQueuePutTo error
  | ErrQueuePutFrom error
  | ErrSyncToJob error
  | ErrSyncFromJob error
  | ErrCatcher "error list"
  | ErrVersion string
  | ErrOpeningBucket error string
  | ErrDryMode error
  | ErrOpeningDryRun error string
  | ErrCloningBucket error string
  | ErrCreatingDirectory error string
  | ErrSyncFrom error string string
  | ErrCopyingPackages error
  | ErrBuildingRepo error string
  | ErrUnsupportedRepo string
  | ErrUploading error string string string

text \<open>\<open>s3.Key\<close>: the key name and the size of the object (the other metadata is not used).\<close>

record s3_Key =
  Key :: string
  Size :: nat

datatype logline =
    LogError error
  | LogMissingPath string string
  | LogRemoving string string
  | LogDryRunPut string string string
  | LogDryRunSingle string
  | LogDryRunBatch string
  | LogDryRunLastBatch string
  | LogFound nat string string string
  | LogCritical error

record world =
  objects :: "(string \<times> string) list"
  fault :: "call \<Rightarrow> nat \<Rightarrow> bool"
  calls :: "call list"
  logs :: "logline list"
  files :: "(string \<times> string) list"
  dirs :: "string list"

text \<open>
  The host: what the standard library answers. \<open>readable\<close> and \<open>writable\<close> stand for the
  permissions of the local file system, \<open>filepath_Dir\<close> for \<open>filepath.Dir\<close>,
  \<open>mime_TypeByExtension\<close> for the MIME table after \<open>init\<close>, \<open>queue_Start\<close> for the start of an
  \<open>amboy\<close> queue with the given number of workers, and \<open>regexp_Compile\<close> for
  \<open>regexp.Compile\<close> followed by \<open>MatchString\<close>.
\<close>

record host =
  readable :: "string \<Rightarrow> bool"
  writable :: "string \<Rightarrow> bool"
  filepath_Dir :: "string \<Rightarrow> string"
  mime_TypeByExtension :: "string \<Rightarrow> string"
  queue_Start :: "int \<Rightarrow> error option"
  regexp_Compile :: "string \<Rightarrow> error + (string \<Rightarrow> bool)"

definition invoke :: "call \<Rightarrow> world \<Rightarrow> bool \<times> world" where
  "invoke c w = (fault w c (count_list (calls w) c), w\<lparr>calls := calls w @ [c]\<rparr>)"

definition keys_of :: "world \<Rightarrow> string list" where
  "keys_of w = sort (remdups (map fst (objects w)))"

definition key_of :: "world \<Rightarrow> string \<Rightarrow> s3_Key" where
  "key_of w k = \<lparr>Key = k, Size = (case map_of (objects w) k of None \<Rightarrow> 0 | Some d \<Rightarrow> length d)\<rparr>"

definition bucket_Exists :: "string \<Rightarrow> world \<Rightarrow> (error + bool) \<times> world" where
  "bucket_Exists path w =
     (case invoke (ExistsCall path) w of
        (True, w') \<Rightarrow> (Inl (S3Error (ExistsCall path)), w')
      | (False, w') \<Rightarrow> (Inr (path \<in> set (map fst (objects w))), w'))"

definition bucket_Put :: "string \<Rightarrow> string \<Rightarrow> string \<Rightarrow> string \<Rightarrow> world \<Rightarrow> error option \<times> world" where
  "bucket_Put path contents mimeType perm w =
     (case invoke (PutCall path contents mimeType perm) w of
        (True, w') \<Rightarrow> (Some (S3Error (PutCall path contents mimeType perm)), w')
      | (False, w') \<Rightarrow>
          (None, w'\<lparr>objects := (path, contents) # filter (\<lambda>kv. fst kv \<noteq> path) (objects w)\<rparr>))"

definition bucket_Get :: "string \<Rightarrow> world \<Rightarrow> (error + string) \<times> world" where
  "bucket_Get path w =
     (case invoke (GetCall path) w of
        (True, w') \<Rightarrow> (Inl (S3Error (GetCall path)), w')
      | (False, w') \<Rightarrow>
          (case map_of (objects w) path of
             None \<Rightarrow> (Inl (NoSuchKey path), w')
           | Some d \<Rightarrow> (Inr d, w')))"

definition bucket_Del :: "string \<Rightarrow> world \<Rightarrow> error option \<times> world" where
  "bucket_Del path w =
     (case invoke (DelCall path) w of
        (True, w') \<Rightarrow> (Some (S3Error (DelCall path)), w')
      | (False, w') \<Rightarrow> (None, w'\<lparr>objects := filter (\<lambda>kv. fst kv \<noteq> path) (objects w)\<rparr>))"

definition bucket_DelMulti :: "string list \<Rightarrow> world \<Rightarrow> error option \<times> world" where
  "bucket_DelMulti ks w =
     (case invoke (DelMultiCall ks) w of
        (True, w') \<Rightarrow> (Some (S3Error (DelMultiCall ks)), w')
      | (False, w') \<Rightarrow> (None, w'\<lparr>objects := filter (\<lambda>kv. fst kv \<notin> set ks) (objects w)\<rparr>))"

text \<open>
  \<open>List(prefix, delim, marker, max)\<close>: the keys with the prefix that come after the marker
  in the store's (lexicographic) order, at most \<open>max\<close> of them, and whether more remain.
\<close>

definition bucket_List ::
  "string \<Rightarrow> string \<Rightarrow> string \<Rightarrow> nat \<Rightarrow> world \<Rightarrow> (error + (s3_Key list \<times> bool)) \<times> world" where
  "bucket_List prefix delim marker mx w =
     (case invoke (ListCall prefix delim marker mx) w of
        (True, w') \<Rightarrow> (Inl (S3Error (ListCall prefix delim marker mx)), w')
      | (False, w') \<Rightarrow>
          (let rest = filter (\<lambda>k. take (length prefix) k = prefix \<and> marker < k) (keys_of w)
           in (Inr (map (key_of w) (take mx rest), mx < length rest), w')))"

definition mutating :: "call \<Rightarrow> bool" where
  "mutating c = (case c of PutCall _ _ _ _ \<Rightarrow> True | DelCall _ \<Rightarrow> True
                 | DelMultiCall _ \<Rightarrow> True | _ \<Rightarrow> False)"

definition log :: "logline \<Rightarrow> world \<Rightarrow> world" where
  "log l w = w\<lparr>logs := logs w @ [l]\<rparr>"

section \<open>Bucket\<close>

record AWSConnectionConfiguration =
  Auth :: string
  Region :: string

text \<open>
  The struct \<open>Bucket\<close>. The pointers \<open>s3\<close>, \<open>bucket\<close> and \<open>queue\<close> are options: \<open>None\<close> is
  \<open>nil\<close>, \<open>s3\<close> holds the configuration the connection was made from, \<open>bucket\<close> the name
  the remote handle was made for, \<open>queue\<close> the number of workers of the queue. The field
  \<open>open\<close> is called \<open>opened\<close>. The process-wide registry is not modelled. The listing and
  deleting operations are modelled for a handle whose pointer \<open>b.bucket\<close> is set, as it is
  after \<open>Open\<close>; the retry loops of \<open>Exists\<close>, \<open>Put\<close> and \<open>Get\<close> have the panic of a remote
  call through the \<open>nil\<close> pointer as a branch.
\<close>

record Bucket =
  NewFilePermission :: string
  opened :: bool
  dryRun :: bool
  credentials :: AWSConnectionConfiguration
  bucket :: "string option"
  s3 :: "AWSConnectionConfiguration option"
  name :: string
  numJobs :: int
  numRetries :: int
  queue :: "int option"

definition zero_Bucket :: Bucket where
  "zero_Bucket = \<lparr>NewFilePermission = '''', opened = False, dryRun = False,
     credentials = \<lparr>Auth = '''', Region = ''''\<rparr>, bucket = None, s3 = None, name = '''',
     numJobs = 0, numRetries = 0, queue = None\<rparr>"

definition NewBucket :: "Bucket \<Rightarrow> string \<Rightarrow> Bucket" where
  "NewBucket b nm = zero_Bucket\<lparr>name := nm, NewFilePermission := NewFilePermission b,
     credentials := credentials b, numJobs := numJobs b, numRetries := 20\<rparr>"

definition Open :: "host \<Rightarrow> Bucket \<Rightarrow> error option \<times> Bucket" where
  "Open h b =
     (if opened b then (None, b)
      else
        let b1 = (if s3 b = None then b\<lparr>s3 := Some (credentials b)\<rparr> else b);
            b2 = (if bucket b1 = None \<or> bucket b1 \<noteq> Some (name b1)
                  then b1\<lparr>bucket := Some (name b1)\<rparr> else b1);
            b3 = b2\<lparr>opened := True\<rparr>;
            b4 = b3\<lparr>queue := Some (numJobs b3)\<rparr>
        in (map_option ErrStartQueue (queue_Start h (numJobs b3)), b4))"

definition Clone :: "host \<Rightarrow> Bucket \<Rightarrow> error + Bucket" where
  "Clone h b =
     (let clone = zero_Bucket\<lparr>name := name b, opened := False,
            NewFilePermission := NewFilePermission b, credentials := credentials b,
            numJobs := numJobs b, numRetries := numRetries b\<rparr>
      in if opened b then
           (case Open h clone of
              (Some err, _) \<Rightarrow> Inl err
            | (None, clone') \<Rightarrow> Inr clone')
         else Inr clone)"

definition DryRunClone :: "host \<Rightarrow> Bucket \<Rightarrow> error + Bucket" where
  "DryRunClone h b =
     (case Clone h b of
        Inl err \<Rightarrow> Inl err
      | Inr clone \<Rightarrow> Inr (clone\<lparr>dryRun := True\<rparr>))"

definition SetCredentials :: "Bucket \<Rightarrow> AWSConnectionConfiguration \<Rightarrow> Bucket" where
  "SetCredentials b c = b\<lparr>credentials := c, s3 := Some c, bucket := Some (name b)\<rparr>"

definition Close :: "Bucket \<Rightarrow> Bucket" where
  "Close b = (if opened b then b\<lparr>opened := False\<rparr> else b)"

definition SetNumJobs :: "Bucket \<Rightarrow> int \<Rightarrow> error option \<times> Bucket" where
  "SetNumJobs b n =
     (if opened b then (Some (ErrNumJobs (numJobs b)), b)
      else (None, b\<lparr>numJobs := n\<rparr>))"

definition SetNumRetries :: "Bucket \<Rightarrow> int \<Rightarrow> error option \<times> Bucket" where
  "SetNumRetries b n =
     (if n < 0 then (Some (ErrNumRetries n), b)
      else (None, b\<lparr>numRetries := n\<rparr>))"

subsection \<open>Exists, Put and Get: the retry loops\<close>

text \<open>
  Go's \<open>int\<close> has 64 bits on the platforms the program is built for. The fields of type
  \<open>int\<close> are kept as \<open>int\<close>; where the code counts, the wrap-around is written out:
  \<open>incr\<close> is \<open>i++\<close>, which takes \<open>MaxInt64\<close> to \<open>MinInt64\<close>.
\<close>

definition MaxInt64 :: int where
  "MaxInt64 = 2 ^ 63 - 1"

definition MinInt64 :: int where
  "MinInt64 = - (2 ^ 63)"

definition incr :: "int \<Rightarrow> int" where
  "incr i = (if i = MaxInt64 then MinInt64 else i + 1)"

text \<open>
  A call of \<open>Exists\<close>, \<open>Put\<close> or \<open>Get\<close> returns (\<open>Some (Returns r)\<close>), panics
  (\<open>Some Panics\<close>: a remote call through the pointer \<open>b.bucket\<close> when it is \<open>nil\<close>, as on a
  handle that was never opened), or never leaves its loop (\<open>None\<close>). The loop
  \<open>for i := 1; i <= b.numRetries; i++\<close> is a recursion on the counter; it has no bound of
  its own, since after \<open>MaxInt64\<close> the counter starts again at \<open>MinInt64\<close>.
\<close>

datatype 'a outcome = Returns 'a | Panics

partial_function (option) Exists_loop ::
  "Bucket \<Rightarrow> string \<Rightarrow> int \<Rightarrow> bool \<Rightarrow> error option \<Rightarrow> world \<Rightarrow>
   ((bool \<times> error option) \<times> world) outcome option" where
  "Exists_loop b path i ex err w =
     (if i \<le> numRetries b then
        (case bucket b of
           None \<Rightarrow> Some Panics
         | Some _ \<Rightarrow>
             (case bucket_Exists path w of
                (Inr e, w') \<Rightarrow> Some (Returns ((e, None), w'))
              | (Inl er, w') \<Rightarrow>
                  Exists_loop b path (incr i) False
                    (Some (ErrExistsAttempt er path (name b) i)) w'))
      else Some (Returns ((ex, err), w)))"

definition Exists ::
  "Bucket \<Rightarrow> string \<Rightarrow> world \<Rightarrow> ((bool \<times> error option) \<times> world) outcome option" where
  "Exists b path w = Exists_loop b path 1 False None w"

text \<open>
  \<open>getMimeType\<close>: the part of the file name after its last dot (the whole name when it has
  no dot), looked up with a leading dot; \<open>text/plain\<close> when the table has no entry.
\<close>

definition last_part :: "string \<Rightarrow> string" where
  "last_part fileName = rev (takeWhile (\<lambda>c. c \<noteq> CHR ''.'') (rev fileName))"

definition getMimeType :: "host \<Rightarrow> string \<Rightarrow> string" where
  "getMimeType h fileName =
     (let mimeType = mime_TypeByExtension h (CHR ''.'' # last_part fileName)
      in if mimeType = '''' then ''text/plain'' else mimeType)"

text \<open>
  The loop of \<open>Put\<close> returns \<open>None\<close> when an attempt succeeded (the function returns \<open>nil\<close>
  from inside the loop), otherwise the errors collected by the catcher.
\<close>

partial_function (option) Put_loop ::
  "Bucket \<Rightarrow> string \<Rightarrow> string \<Rightarrow> string \<Rightarrow> int \<Rightarrow> error list \<Rightarrow> world \<Rightarrow>
   (error list option \<times> world) outcome option" where
  "Put_loop b path contents mimeType i catcher w =
     (if i \<le> numRetries b then
        (case bucket b of
           None \<Rightarrow> Some Panics
         | Some _ \<Rightarrow>
             (case bucket_Put path contents mimeType (NewFilePermission b) w of
                (None, w') \<Rightarrow> Some (Returns (None, w'))
              | (Some er, w') \<Rightarrow>
                  Put_loop b path contents mimeType (incr i)
                    (catcher @ [ErrPutAttempt er path (name b) i]) w'))
      else Some (Returns (Some catcher, w)))"

definition stat_IsNotExist :: "world \<Rightarrow> string \<Rightarrow> bool" where
  "stat_IsNotExist w p = (p \<notin> set (map fst (files w)) \<and> p \<notin> set (dirs w))"

definition ReadFile :: "host \<Rightarrow> world \<Rightarrow> string \<Rightarrow> error + string" where
  "ReadFile h w p =
     (if \<not> readable h p then Inl (OsError p)
      else case map_of (files w) p of None \<Rightarrow> Inl (OsError p) | Some d \<Rightarrow> Inr d)"

definition MkdirAll :: "host \<Rightarrow> string \<Rightarrow> world \<Rightarrow> error option \<times> world" where
  "MkdirAll h d w =
     (if \<not> writable h d \<or> d \<in> set (map fst (files w)) then (Some (OsError d), w)
      else (None, w\<lparr>dirs := d # dirs w\<rparr>))"

definition WriteFile :: "host \<Rightarrow> string \<Rightarrow> string \<Rightarrow> world \<Rightarrow> error option \<times> world" where
  "WriteFile h p d w =
     (if \<not> writable h p \<or> p \<in> set (dirs w) \<or> filepath_Dir h p \<notin> set (dirs w)
      then (Some (OsError p), w)
      else (None, w\<lparr>files := (p, d) # filter (\<lambda>kv. fst kv \<noteq> p) (files w)\<rparr>))"

definition Put ::
  "host \<Rightarrow> Bucket \<Rightarrow> string \<Rightarrow> string \<Rightarrow> world \<Rightarrow> (error option \<times> world) outcome option" where
  "Put h b fileName path w =
     (if stat_IsNotExist w fileName then Some (Returns (Some (ErrFileNotExist fileName), w))
      else
        let mimeType = getMimeType h fileName in
        case ReadFile h w fileName of
          Inl err \<Rightarrow> Some (Returns (Some (ErrReadFile err fileName), w))
        | Inr contents \<Rightarrow>
            if dryRun b then Some (Returns (None, log (LogDryRunPut fileName (name b) path) w))
            else
              (case Put_loop b path contents mimeType 1 [] w of
                 None \<Rightarrow> None
               | Some Panics \<Rightarrow> Some Panics
               | Some (Returns (None, w')) \<Rightarrow> Some (Returns (None, w'))
               | Some (Returns (Some catcher, w')) \<Rightarrow>
                   if catcher \<noteq> []
                   then Some (Returns
                          (Some (ErrPutExhausted (name b) path (numRetries b) catcher), w'))
                   else Some (Returns (None, w'))))"

text \<open>
  The loop of \<open>Get\<close> returns the data of the last attempt and the catcher; a successful
  attempt resets the catcher and leaves the loop.
\<close>

partial_function (option) Get_loop ::
  "Bucket \<Rightarrow> string \<Rightarrow> int \<Rightarrow> string \<Rightarrow> error list \<Rightarrow> world \<Rightarrow>
   ((string \<times> error list) \<times> world) outcome option" where
  "Get_loop b path i data catcher w =
     (if i \<le> numRetries b then
        (case bucket b of
           None \<Rightarrow> Some Panics
         | Some _ \<Rightarrow>
             (case bucket_Get path w of
                (Inr d, w') \<Rightarrow> Some (Returns ((d, []), w'))
              | (Inl er, w') \<Rightarrow> Get_loop b path (incr i) [] (catcher @ [ErrGetAws er]) w'))
      else Some (Returns ((data, catcher), w)))"

definition Get ::
  "host \<Rightarrow> Bucket \<Rightarrow> string \<Rightarrow> string \<Rightarrow> world \<Rightarrow> (error option \<times> world) outcome option" where
  "Get h b path fileName w =
     (case Get_loop b path 1 [] [] w of
        None \<Rightarrow> None
      | Some Panics \<Rightarrow> Some Panics
      | Some (Returns ((data, catcher), w1)) \<Rightarrow>
          if catcher \<noteq> []
          then Some (Returns (Some (ErrGetExhausted (name b) path (numRetries b) catcher), w1))
          else
            let dirName = filepath_Dir h fileName in
            case (if stat_IsNotExist w1 dirName then MkdirAll h dirName w1 else (None, w1)) of
              (Some err, w2) \<Rightarrow> Some (Returns (Some (ErrGetMkdir err), w2))
            | (None, w2) \<Rightarrow>
                (case WriteFile h fileName data w2 of
                   (None, w3) \<Rightarrow> Some (Returns (None, w3))
                 | (Some err, w3) \<Rightarrow> Some (Returns (Some (ErrGetWrite err fileName), w3))))"

subsection \<open>Listing\<close>

text \<open>
  \<open>list\<close> starts a goroutine that pages through the bucket and sends every key on a
  channel. In the model a goroutine that feeds a channel runs to its end before the
  consumer reads, as with an unbounded channel, and the channel is the list of what was
  sent. A consumer that returns early leaves the rest of the list unread (in the source
  the producer then stays blocked on the channel). \<open>list_loop\<close> is the body of the
  goroutine: a failed \<open>List\<close> call is logged with \<open>grip.Error\<close> and ends the loop. The
  store modelled here never answers a truncated page that is empty, so the marker moves
  on with every truncated page and the loop ends, which is its termination proof.
\<close>

function list_loop :: "string \<Rightarrow> string \<Rightarrow> s3_Key list \<Rightarrow> world \<Rightarrow> s3_Key list \<times> world" where
  "list_loop prefix lastKey out w =
     (case bucket_List prefix '''' lastKey 1000 w of
        (Inl err, w') \<Rightarrow> (out, log (LogError err) w')
      | (Inr (results, truncated), w') \<Rightarrow>
          (let lastKey' = (if results = [] then lastKey else Key (last results))
           in if \<not> truncated then (out @ results, w')
              else list_loop prefix lastKey' (out @ results) w'))"
  by pat_completeness auto
termination
proof (relation "measure (\<lambda>(prefix, lastKey, out, w).
         length (filter (\<lambda>k. take (length prefix) k = prefix \<and> lastKey < k) (keys_of w)))",
       goal_cases)
  case 1
  show ?case by simp
next
  case (2 prefix lastKey out w x1 w' x2 results truncated lastKey')
  let ?P = "\<lambda>k. take (length prefix) k = prefix \<and> lastKey < k"
  let ?rest = "filter ?P (keys_of w)"
  from 2 have "bucket_List prefix [] lastKey 1000 w = (Inr (results, True), w')"
    by simp
  then have res: "results = map (key_of w) (take 1000 ?rest)" and tr: "1000 < length ?rest"
    and ob: "objects w' = objects w"
    by (auto simp: bucket_List_def invoke_def Let_def split: bool.splits)
  from ob have w': "keys_of w' = keys_of w"
    by (simp add: keys_of_def)
  from tr have ne: "take 1000 ?rest \<noteq> []" by auto
  with res 2 have lk: "lastKey' = last (take 1000 ?rest)"
    by (simp add: last_map key_of_def)
  from ne have "last (take 1000 ?rest) \<in> set (take 1000 ?rest)" by (rule last_in_set)
  then have mem: "lastKey' \<in> set ?rest" using lk by (auto dest: in_set_takeD)
  then have gt: "lastKey < lastKey'" by simp
  have "filter (\<lambda>k. take (length prefix) k = prefix \<and> lastKey' < k) (keys_of w)
        = filter (\<lambda>k. lastKey' < k) ?rest"
    using gt by (auto intro!: filter_cong)
  moreover have "length (filter (\<lambda>k. lastKey' < k) ?rest) < length ?rest"
    using mem by (intro length_filter_less[of lastKey']) auto
  ultimately show ?case using w' by simp
qed

definition list_bucket :: "string \<Rightarrow> world \<Rightarrow> s3_Key list \<times> world" where
  "list_bucket prefix w =
     (let prefix' = (if prefix \<noteq> '''' \<and> last prefix \<noteq> CHR ''/'' then prefix @ ''/'' else prefix)
      in list_loop prefix' '''' [] w)"

definition contents :: "string \<Rightarrow> world \<Rightarrow> (string \<rightharpoonup> s3_Key) \<times> world" where
  "contents prefix w =
     (case list_bucket prefix w of
        (keys, w') \<Rightarrow> (fold (\<lambda>file out. out(Key file \<mapsto> file)) keys Map.empty, w'))"

subsection \<open>Deleting\<close>

definition Delete :: "Bucket \<Rightarrow> string \<Rightarrow> world \<Rightarrow> error option \<times> world" where
  "Delete b path w =
     (case bucket_Del path (log (LogRemoving (name b) path) w) of
        (r, w') \<Rightarrow> (map_option (\<lambda>e. ErrDelete e path (name b)) r, w'))"

text \<open>
  The loop of \<open>deleteGroup\<close> over the keys still to come on the channel. \<open>Inl r\<close> is a
  \<open>return\<close> from inside the loop with result \<open>r\<close>; \<open>Inr toDelete\<close> is the batch left when
  the channel is closed.
\<close>

fun deleteGroup_loop ::
  "Bucket \<Rightarrow> s3_Key list \<Rightarrow> string list \<Rightarrow> nat \<Rightarrow> world \<Rightarrow> (error option + string list) \<times> world" where
  "deleteGroup_loop b [] toDelete count w =
     (if count = 1000 then
        (if dryRun b then (Inr [], log (LogDryRunBatch (name b)) w)
         else (case bucket_DelMulti toDelete w of
                 (r, w') \<Rightarrow> (Inl (map_option (\<lambda>e. ErrIntermediateDelete e (name b) count) r), w')))
      else (Inr toDelete, w))"
| "deleteGroup_loop b (key # items) toDelete count w =
     (if count = 1000 then
        (if dryRun b
         then deleteGroup_loop b items [Key key] 1 (log (LogDryRunBatch (name b)) w)
         else (case bucket_DelMulti toDelete w of
                 (r, w') \<Rightarrow> (Inl (map_option (\<lambda>e. ErrIntermediateDelete e (name b) count) r), w')))
      else deleteGroup_loop b items (toDelete @ [Key key]) (count + 1) w)"

definition deleteGroup :: "Bucket \<Rightarrow> s3_Key list \<Rightarrow> world \<Rightarrow> error option \<times> world" where
  "deleteGroup b items w =
     (case deleteGroup_loop b items [] 0 w of
        (Inl r, w') \<Rightarrow> (r, w')
      | (Inr toDelete, w') \<Rightarrow>
          (if length toDelete > 0 then
             (if dryRun b then (None, log (LogDryRunLastBatch (name b)) w')
              else (case bucket_DelMulti toDelete w' of
                      (r, w'') \<Rightarrow>
                        (map_option (\<lambda>e. ErrLastDelete e (name b) (length toDelete)) r, w'')))
           else (None, w')))"

text \<open>The goroutine of \<open>DeleteMany\<close>: the requested paths found in the listing, in order.\<close>

fun select_paths ::
  "Bucket \<Rightarrow> (string \<rightharpoonup> s3_Key) \<Rightarrow> string list \<Rightarrow> world \<Rightarrow> s3_Key list \<times> world" where
  "select_paths b cont [] w = ([], w)"
| "select_paths b cont (p # paths) w =
     (case cont p of
        None \<Rightarrow> select_paths b cont paths (log (LogMissingPath p (name b)) w)
      | Some key \<Rightarrow>
          (case select_paths b cont paths w of (keys, w') \<Rightarrow> (key # keys, w')))"

definition DeleteMany :: "Bucket \<Rightarrow> string list \<Rightarrow> world \<Rightarrow> error option \<times> world" where
  "DeleteMany b paths w =
     (if length paths = 1 then
        (if dryRun b then (None, log (LogDryRunSingle (paths ! 0)) w)
         else (case Delete b (paths ! 0) w of
                 (r, w') \<Rightarrow> (map_option ErrSingleDelete r, w')))
      else
        (case contents '''' w of
           (cont, w1) \<Rightarrow>
             (case select_paths b cont paths w1 of
                (toDelete, w2) \<Rightarrow> deleteGroup b toDelete w2)))"

definition DeletePrefix :: "Bucket \<Rightarrow> string \<Rightarrow> world \<Rightarrow> error option \<times> world" where
  "DeletePrefix b prefix w =
     (case list_bucket prefix w of (items, w') \<Rightarrow> deleteGroup b items w')"

definition DeleteMatching ::
  "host \<Rightarrow> Bucket \<Rightarrow> string \<Rightarrow> string \<Rightarrow> world \<Rightarrow> error option \<times> world" where
  "DeleteMatching h b prefix expression w =
     (case regexp_Compile h expression of
        Inl err \<Rightarrow> (Some (ErrCompile err expression (name b)), w)
      | Inr matcher \<Rightarrow>
          (case list_bucket prefix w of
             (items, w1) \<Rightarrow>
               (let toDelete = filter (\<lambda>item. matcher (Key item)) items
                in deleteGroup b toDelete
                     (log (LogFound (length toDelete) expression (name b) prefix) w1))))"

subsection \<open>SyncTo and SyncFrom\<close>

text \<open>
  The sync jobs (\<open>newSyncToJob\<close>, \<open>newSyncFromJob\<close>) and the worker queue are not in the
  files at hand. A job is kept as the arguments it was made from; what the queue and the
  file system walk answer is a parameter: \<open>queue_Put\<close> is \<open>b.queue.Put\<close>, \<open>queue_Wait\<close> stands
  for \<open>b.queue.Wait()\<close> followed by reading the error of every job in
  \<open>b.queue.Results()\<close>, \<open>walk\<close> lists what \<open>filepath.Walk\<close> visits (path, whether it is a
  directory, and the error of reading it), \<open>filepath_Join\<close> is \<open>filepath.Join\<close>.
\<close>

record s3_Bucket_ref =
  ref_name :: string
  ref_dryRun :: bool

datatype syncjob = SyncToJob string s3_Key s3_Bucket_ref | SyncFromJob string s3_Key s3_Bucket_ref

record sync_host =
  filepath_Join :: "string \<Rightarrow> string \<Rightarrow> string"
  walk :: "string \<Rightarrow> (string \<times> bool \<times> error option) list"
  queue_Put :: "syncjob \<Rightarrow> error option"
  queue_Wait :: "syncjob list \<Rightarrow> world \<Rightarrow> error list \<times> world"

definition ref_of :: "Bucket \<Rightarrow> s3_Bucket_ref" where
  "ref_of b = \<lparr>ref_name = name b, ref_dryRun = dryRun b\<rparr>"

definition Resolve :: "error list \<Rightarrow> error option" where
  "Resolve catcher = (if catcher = [] then None else Some (ErrCatcher catcher))"

text \<open>
  The callback of \<open>filepath.Walk\<close> in \<open>SyncTo\<close>, over the entries still to visit: the error
  that ends the walk (if any) and the jobs put into the queue. The slice
  \<open>path[len(local)+1:]\<close> panics when the path is too short: result \<open>None\<close>.
\<close>

fun syncTo_walk ::
  "sync_host \<Rightarrow> Bucket \<Rightarrow> string \<Rightarrow> string \<Rightarrow> (string \<rightharpoonup> s3_Key) \<Rightarrow>
   (string \<times> bool \<times> error option) list \<Rightarrow> world \<Rightarrow> ((error option \<times> syncjob list) \<times> world) option" where
  "syncTo_walk sh b local prefix remote [] w = Some ((None, []), w)"
| "syncTo_walk sh b local prefix remote ((path, isDir, err) # rest) w =
     (case err of
        Some e \<Rightarrow> Some ((Some e, []), log (LogCritical e) w)
      | None \<Rightarrow>
          if isDir then syncTo_walk sh b local prefix remote rest w
          else if length path < length local + 1 then None
          else
            (let keyName = filepath_Join sh prefix (drop (length local + 1) path);
                 remoteFile = (case remote keyName of
                                 Some k \<Rightarrow> k
                               | None \<Rightarrow> \<lparr>Key = keyName, Size = 0\<rparr>);
                 job = SyncToJob path remoteFile (ref_of b)
             in case queue_Put sh job of
                  Some e \<Rightarrow> Some ((Some (ErrQueuePutTo e), []), w)
                | None \<Rightarrow>
                    (case syncTo_walk sh b local prefix remote rest w of
                       None \<Rightarrow> None
                     | Some ((r, jobs), w') \<Rightarrow> Some ((r, job # jobs), w'))))"

definition SyncTo ::
  "sync_host \<Rightarrow> Bucket \<Rightarrow> string \<Rightarrow> string \<Rightarrow> world \<Rightarrow> (error option \<times> world) option" where
  "SyncTo sh b local prefix w =
     (case contents prefix w of
        (remote, w1) \<Rightarrow>
          (case syncTo_walk sh b local prefix remote (walk sh local) w1 of
             None \<Rightarrow> None
           | Some ((werr, jobs), w2) \<Rightarrow>
               (case queue_Wait sh jobs w2 of
                  (results, w3) \<Rightarrow>
                    Some (Resolve ((case werr of None \<Rightarrow> [] | Some e \<Rightarrow> [e])
                                   @ map ErrSyncToJob results), w3))))"

text \<open>
  The loop of \<open>SyncFrom\<close> over the listing: the errors of \<open>b.queue.Put\<close> and the jobs that
  were put. Every listed key starts with the prefix, so the slice
  \<open>remote.Key[len(prefix):]\<close> is in range.
\<close>

fun syncFrom_put ::
  "sync_host \<Rightarrow> Bucket \<Rightarrow> string \<Rightarrow> string \<Rightarrow> s3_Key list \<Rightarrow> error list \<times> syncjob list" where
  "syncFrom_put sh b local prefix [] = ([], [])"
| "syncFrom_put sh b local prefix (remote # rest) =
     (let job = SyncFromJob (filepath_Join sh local (drop (length prefix) (Key remote)))
                  remote (ref_of b)
      in case syncFrom_put sh b local prefix rest of
           (catcher, jobs) \<Rightarrow>
             (case queue_Put sh job of
                Some e \<Rightarrow> (ErrQueuePutFrom e # catcher, jobs)
              | None \<Rightarrow> (catcher, job # jobs)))"

definition SyncFrom ::
  "sync_host \<Rightarrow> Bucket \<Rightarrow> string \<Rightarrow> string \<Rightarrow> world \<Rightarrow> error option \<times> world" where
  "SyncFrom sh b local prefix w =
     (case list_bucket prefix w of
        (remotes, w1) \<Rightarrow>
          (case syncFrom_put sh b local prefix remotes of
             (catcher, jobs) \<Rightarrow>
               (case queue_Wait sh jobs w1 of
                  (results, w2) \<Rightarrow> (Resolve (catcher @ map ErrSyncFromJob results), w2))))"

section \<open>The repository build job\<close>

text \<open>
  Modelled from the spec: \<open>curator.MongoDBVersion\<close>, its constructor
  \<open>NewMongoDBVersion\<close> and its methods \<open>IsDevelopmentBuild\<close>, \<open>IsReleaseCandidate\<close> and
  \<open>Series\<close> are not in the files at hand. The spec gives three classes of builds:
  development builds (unreleased or nightly), release candidates (such as \<open>4.3.0-rc1\<close>)
  and all other (GA) builds (such as \<open>4.2.1\<close>), and names the series of a release line
  by its first two numbers (\<open>4.2\<close>). A version is read here as three numbers separated by
  dots, followed by tags separated by dashes: no tag is a GA build, the single tag \<open>rc\<close>
  with a number is a release candidate, any other tag is a development build.
\<close>

record MongoDBVersion =
  isDev :: bool
  isRc :: bool
  series :: string

fun split_on :: "char \<Rightarrow> string \<Rightarrow> string list" where
  "split_on c [] = [[]]"
| "split_on c (x # xs) =
     (if x = c then [] # split_on c xs
      else (case split_on c xs of [] \<Rightarrow> [[x]] | p # ps \<Rightarrow> (x # p) # ps))"

definition is_number :: "string \<Rightarrow> bool" where
  "is_number s = (s \<noteq> [] \<and> list_all (\<lambda>c. c \<in> set ''0123456789'') s)"

definition is_rc_tag :: "string list \<Rightarrow> bool" where
  "is_rc_tag tags = (case tags of [t] \<Rightarrow> take 2 t = ''rc'' \<and> is_number (drop 2 t) | _ \<Rightarrow> False)"

text \<open>
  Modelled from the spec: the constructor \<open>curator.NewMongoDBVersion\<close>, missing from the
  sources; three numbers separated by dots, then tags separated by dashes.
\<close>

definition NewMongoDBVersion :: "string \<Rightarrow> error + MongoDBVersion" where
  "NewMongoDBVersion version =
     (case split_on CHR ''-'' version of
        [] \<Rightarrow> Inl (ErrVersion version)
      | base # tags \<Rightarrow>
          (case split_on CHR ''.'' base of
             [major, minor, patch] \<Rightarrow>
               if is_number major \<and> is_number minor \<and> is_number patch
               then Inr \<lparr>isDev = (tags \<noteq> [] \<and> \<not> is_rc_tag tags), isRc = is_rc_tag tags,
                         series = major @ ''.'' @ minor\<rparr>
               else Inl (ErrVersion version)
           | _ \<Rightarrow> Inl (ErrVersion version)))"

text \<open>
  Modelled from the spec: the methods \<open>IsDevelopmentBuild\<close>, \<open>IsReleaseCandidate\<close> and
  \<open>Series\<close> of \<open>curator.MongoDBVersion\<close>, missing from the sources; they read what the
  constructor found.
\<close>

definition IsDevelopmentBuild :: "MongoDBVersion \<Rightarrow> bool" where
  "IsDevelopmentBuild v = isDev v"

definition IsReleaseCandidate :: "MongoDBVersion \<Rightarrow> bool" where
  "IsReleaseCandidate v = isRc v"

definition Series :: "MongoDBVersion \<Rightarrow> string" where
  "Series v = series v"

datatype repo_type = DEB | RPM | OtherType string

record RepositoryDefinition =
  Type :: repo_type
  Distro_Bucket :: string
  Repos :: "string list"

datatype event = Spawned string | Finished string | Joined | MarkedComplete | Closed string

text \<open>
  The interface \<open>jobImpl\<close>: a builder is the pair of its two methods. Their work (linking
  and signing packages, running the repository tools) is outside the files at hand; a
  method takes the world and returns it changed.
\<close>

record jobImpl =
  rebuildRepo :: "string \<Rightarrow> world \<Rightarrow> error option \<times> world"
  injectPackage :: "string \<Rightarrow> string \<Rightarrow> world \<Rightarrow> (error + string) \<times> world"

text \<open>
  The struct \<open>Job\<close> with the fields of its base that \<open>Run\<close> touches: the completion flag
  and the error list. \<open>events\<close> records, in order, the start and end of each goroutine,
  the return of \<open>wg.Wait()\<close>, the call of \<open>MarkComplete\<close> and the closing of handles.
  The interface value \<open>builder\<close> is an option: \<open>None\<close> is \<open>nil\<close>.
\<close>

record Job =
  Distro :: RepositoryDefinition
  DryRun :: bool
  Version :: string
  Arch :: string
  Profile :: string
  WorkSpace :: string
  PackagePaths :: "string list"
  workingDirs :: "string list"
  release :: MongoDBVersion
  builder :: "jobImpl option"
  IsComplete :: bool
  Errors :: "error list"
  events :: "event list"

text \<open>
  What the job takes from outside the files at hand: the bucket factory
  \<open>GetBucketWithProfile\<close>, the builders that \<open>setupDEBJob\<close> and \<open>setupRPMJob\<close> install in
  the job, and the working directory. \<open>NewBuildRepoJob\<close> calls \<open>setupDEBJob\<close> for the type
  \<open>DEB\<close>, \<open>setupRPMJob\<close> for \<open>RPM\<close> and neither for any other type, which leaves the builder
  \<open>nil\<close>. It keeps the architecture it is given (the mapping \<open>getArchForDistro\<close> is not in
  the files at hand) and leaves out the job identifier. \<open>Run\<close> passes a context and sync
  options to the handle; the handle modelled here takes none.
\<close>

record job_host =
  GetBucketWithProfile :: "string \<Rightarrow> string \<Rightarrow> Bucket"
  setupDEBJob :: jobImpl
  setupRPMJob :: jobImpl
  Getwd :: "error + string"

definition NewBuildRepoJob ::
  "job_host \<Rightarrow> RepositoryDefinition \<Rightarrow> string \<Rightarrow> string \<Rightarrow> string \<Rightarrow> string list \<Rightarrow> error + Job" where
  "NewBuildRepoJob jh distro version arch profile pkgs =
     (case NewMongoDBVersion version of
        Inl err \<Rightarrow> Inl err
      | Inr rel \<Rightarrow>
          (case Getwd jh of
             Inl err \<Rightarrow> Inl err
           | Inr wd \<Rightarrow>
               Inr \<lparr>Distro = distro, DryRun = False, Version = version, Arch = arch,
                    Profile = profile, WorkSpace = wd, PackagePaths = pkgs, workingDirs = [],
                    release = rel,
                    builder = (case Type distro of
                                 DEB \<Rightarrow> Some (setupDEBJob jh)
                               | RPM \<Rightarrow> Some (setupRPMJob jh)
                               | OtherType t \<Rightarrow> None),
                    IsComplete = False, Errors = [], events = []\<rparr>))"

definition getPackageLocation :: "Job \<Rightarrow> string" where
  "getPackageLocation j =
     (if IsDevelopmentBuild (release j) then ''development''
      else if IsReleaseCandidate (release j) then ''testing''
      else Series (release j))"

definition AddError :: "error \<Rightarrow> Job \<Rightarrow> Job" where
  "AddError err j = j\<lparr>Errors := Errors j @ [err]\<rparr>"

definition emit :: "event \<Rightarrow> Job \<Rightarrow> Job" where
  "emit e j = j\<lparr>events := events j @ [e]\<rparr>"

definition markComplete :: "Job \<Rightarrow> Job" where
  "markComplete j = emit MarkedComplete (j\<lparr>IsComplete := True\<rparr>)"

definition type_name :: "repo_type \<Rightarrow> string" where
  "type_name t = (case t of DEB \<Rightarrow> ''deb'' | RPM \<Rightarrow> ''rpm'' | OtherType s \<Rightarrow> s)"

text \<open>
  The body of the goroutine of one repository. \<open>None\<close> is a panic, which ends the process:
  a method call on the \<open>nil\<close> builder in \<open>injectNewPackages\<close>, or a slice out of range in
  \<open>changed[len(local)+1:]\<close> or inside \<open>SyncTo\<close>.
\<close>

definition repo_task ::
  "host \<Rightarrow> sync_host \<Rightarrow> string \<Rightarrow> Bucket \<Rightarrow> Job \<Rightarrow> world \<Rightarrow> (Job \<times> world) option" where
  "repo_task h sh remote b j w =
     (let local = filepath_Join sh (WorkSpace j) remote in
      case MkdirAll h local w of
        (Some err, w1) \<Rightarrow> Some (AddError (ErrCreatingDirectory err local) j, w1)
      | (None, w1) \<Rightarrow>
          (let pkgLocation = getPackageLocation j in
           case SyncFrom sh b (filepath_Join sh local pkgLocation)
                  (filepath_Join sh remote pkgLocation) w1 of
             (Some err, w2) \<Rightarrow> Some (AddError (ErrSyncFrom err remote local) j, w2)
           | (None, w2) \<Rightarrow>
               (case builder j of
                  None \<Rightarrow> None
                | Some impl \<Rightarrow>
                    (case injectPackage impl local pkgLocation w2 of
                       (Inl err, w3) \<Rightarrow> Some (AddError (ErrCopyingPackages err) j, w3)
                     | (Inr changed, w3) \<Rightarrow>
                         (case rebuildRepo impl changed w3 of
                            (Some err, w4) \<Rightarrow>
                              Some (AddError (ErrBuildingRepo err changed) j, w4)
                          | (None, w4) \<Rightarrow>
                              (case Type (Distro j) of
                                 OtherType t \<Rightarrow> Some (AddError (ErrUnsupportedRepo t) j, w4)
                               | _ \<Rightarrow>
                                   if length changed < length local + 1 then None
                                   else
                                     (let rel = drop (length local + 1) changed;
                                          changedComponent =
                                            (if Type (Distro j) = DEB then filepath_Dir h rel
                                             else rel);
                                          syncSource =
                                            (if Type (Distro j) = DEB then filepath_Dir h changed
                                             else changed)
                                      in case SyncTo sh b syncSource
                                                (filepath_Join sh remote changedComponent) w4 of
                                           None \<Rightarrow> None
                                         | Some (None, w5) \<Rightarrow> Some (j, w5)
                                         | Some (Some err, w5) \<Rightarrow>
                                             Some (AddError (ErrUploading err syncSource (name b)
                                                     changedComponent) j, w5))))))))"

text \<open>
  The loop over \<open>j.Distro.Repos\<close>. Each goroutine is run where it is started: one of the
  schedules of the program, in which the goroutines do not overlap. The deferred calls of
  a goroutine run in reverse order: \<open>wg.Done()\<close> first, then \<open>b.Close()\<close>.
\<close>

fun run_repos ::
  "host \<Rightarrow> sync_host \<Rightarrow> Bucket \<Rightarrow> string list \<Rightarrow> Job \<Rightarrow> world \<Rightarrow> (Job \<times> world) option" where
  "run_repos h sh bkt [] j w = Some (j, w)"
| "run_repos h sh bkt (remote # rest) j w =
     (case Clone h bkt of
        Inl err \<Rightarrow> run_repos h sh bkt rest (AddError (ErrCloningBucket err (name bkt)) j) w
      | Inr clonedBucket \<Rightarrow>
          (case repo_task h sh remote clonedBucket
                  (emit (Spawned remote) (j\<lparr>workingDirs := workingDirs j @ [remote]\<rparr>)) w of
             None \<Rightarrow> None
           | Some (j', w') \<Rightarrow>
               run_repos h sh bkt rest
                 (emit (Closed (name clonedBucket)) (emit (Finished remote) j')) w'))"

definition Run :: "host \<Rightarrow> sync_host \<Rightarrow> job_host \<Rightarrow> Job \<Rightarrow> world \<Rightarrow> (Job \<times> world) option" where
  "Run h sh jh j w =
     (case Open h (GetBucketWithProfile jh (Distro_Bucket (Distro j)) (Profile j)) of
        (Some err, bkt) \<Rightarrow> Some (AddError (ErrOpeningBucket err (name bkt)) j, w)
      | (None, bkt) \<Rightarrow>
          (if DryRun j then
             (case DryRunClone h bkt of
                Inl err \<Rightarrow> Some (emit (Closed (name bkt)) (AddError (ErrDryMode err) j), w)
              | Inr dry \<Rightarrow>
                  (case Open h dry of
                     (Some err, dry') \<Rightarrow>
                       Some (emit (Closed (name bkt))
                               (AddError (ErrOpeningDryRun err (name dry')) j), w)
                   | (None, dry') \<Rightarrow>
                       (case run_repos h sh (dry'\<lparr>NewFilePermission := ''public-read''\<rparr>)
                               (Repos (Distro j)) j w of
                          None \<Rightarrow> None
                        | Some (j', w') \<Rightarrow>
                            Some (emit (Closed (name bkt)) (emit (Closed (name dry'))
                                    (markComplete (emit Joined j'))), w'))))
           else
             (case run_repos h sh (bkt\<lparr>NewFilePermission := ''public-read''\<rparr>)
                     (Repos (Distro j)) j w of
                None \<Rightarrow> None
              | Some (j', w') \<Rightarrow>
                  Some (emit (Closed (name bkt)) (markComplete (emit Joined j')), w'))))"

section \<open>Notions used in the statements\<close>

text \<open>
  \<open>fails_first w c m\<close>: from the world \<open>w\<close> on, the next \<open>m\<close> invocations of the call \<open>c\<close>
  fail; \<open>succeeds_at w c m\<close>: the invocation after those \<open>m\<close> is answered.
\<close>

definition fails_first :: "world \<Rightarrow> call \<Rightarrow> nat \<Rightarrow> bool" where
  "fails_first w c m = (\<forall>k<m. fault w c (count_list (calls w) c + k))"

definition succeeds_at :: "world \<Rightarrow> call \<Rightarrow> nat \<Rightarrow> bool" where
  "succeeds_at w c m = (\<not> fault w c (count_list (calls w) c + m))"

text \<open>No remote call fails.\<close>

definition reliable :: "world \<Rightarrow> bool" where
  "reliable w = (\<forall>c k. \<not> fault w c k)"

text \<open>
  The local file \<open>fileName\<close> can be written: it is not a directory, the process may write
  it, and its directory exists or can be made.
\<close>

definition can_write_local :: "host \<Rightarrow> world \<Rightarrow> string \<Rightarrow> bool" where
  "can_write_local h w fileName =
     (writable h fileName \<and> fileName \<notin> set (dirs w) \<and> fileName \<noteq> filepath_Dir h fileName \<and>
      (filepath_Dir h fileName \<in> set (dirs w) \<or>
       (filepath_Dir h fileName \<notin> set (map fst (files w)) \<and> writable h (filepath_Dir h fileName))))"

text \<open>The remote calls of a trace that change the bucket, and the bulk deletes among them.\<close>

definition mutations :: "world \<Rightarrow> call list" where
  "mutations w = filter mutating (calls w)"

definition bulk_deletes :: "call list \<Rightarrow> string list list" where
  "bulk_deletes cs = concat (map (\<lambda>c. case c of DelMultiCall ks \<Rightarrow> [ks] | _ \<Rightarrow> []) cs)"


text \<open>
  The prefix that \<open>list\<close> sends to the store, and the keys \<open>listed prefix marker w\<close> that
  the store holds under a prefix after a marker, in its order.
\<close>

definition list_prefix :: "string \<Rightarrow> string" where
  "list_prefix prefix =
     (if prefix \<noteq> [] \<and> last prefix \<noteq> CHR ''/'' then prefix @ ''/'' else prefix)"

definition listed :: "string \<Rightarrow> string \<Rightarrow> world \<Rightarrow> string list" where
  "listed prefix marker w =
     filter (\<lambda>k. take (length prefix) k = prefix \<and> marker < k) (keys_of w)"

text \<open>
  The \<open>List\<close> calls of a listing, page by page, where \<open>L\<close> is what the store holds under
  the prefix: the first call has the empty marker, the call for page \<open>k\<close> the last key of
  the page before. \<open>list_fails_at w prefix j\<close>: in the world \<open>w\<close> a listing of \<open>prefix\<close> gets
  its first \<open>j\<close> pages, more keys remain, and its next \<open>List\<close> call fails.
\<close>

definition page_call :: "string \<Rightarrow> string list \<Rightarrow> nat \<Rightarrow> call" where
  "page_call p L k = ListCall p [] (if k = 0 then [] else L ! (1000 * k - 1)) 1000"

definition list_fails_at :: "world \<Rightarrow> string \<Rightarrow> nat \<Rightarrow> bool" where
  "list_fails_at w prefix j =
     (let p = list_prefix prefix; L = listed p [] w in
      (j = 0 \<or> 1000 * j < length L) \<and>
      list_all (\<lambda>k. \<not> fault w (page_call p L k) (count_list (calls w) (page_call p L k)))
        [0..<j] \<and>
      fault w (page_call p L j) (count_list (calls w) (page_call p L j)))"

text \<open>The requested paths that a listing of the whole bucket holds.\<close>

definition present :: "world \<Rightarrow> string list \<Rightarrow> string list" where
  "present w paths = filter (\<lambda>p. p \<in> set (listed [] [] w)) paths"

text \<open>The events of the goroutines: everything but the join and the completion.\<close>

definition goroutine_event :: "event \<Rightarrow> bool" where
  "goroutine_event e = (case e of Joined \<Rightarrow> False | MarkedComplete \<Rightarrow> False | _ \<Rightarrow> True)"

subsection \<open>Example values\<close>

definition demo_host :: host where
  "demo_host = \<lparr>readable = (\<lambda>p. True), writable = (\<lambda>p. True),
     filepath_Dir = (\<lambda>p. ''/tmp''),
     mime_TypeByExtension =
       (\<lambda>e. if e = ''.rpm'' then ''application/x-redhat-package-manager'' else []),
     queue_Start = (\<lambda>n. None),
     regexp_Compile = (\<lambda>e. Inr (\<lambda>s. True))\<rparr>"

definition demo_bucket :: Bucket where
  "demo_bucket = zero_Bucket\<lparr>name := ''repo'', NewFilePermission := ''private'',
     opened := True, bucket := Some ''repo'', numRetries := 3, numJobs := 2, queue := Some 2\<rparr>"

text \<open>A world in which the first two invocations of every remote call fail.\<close>

definition demo_world :: world where
  "demo_world = \<lparr>objects = [(''pkg/a.rpm'', ''A'')], fault = (\<lambda>c k. k < 2), calls = [],
     logs = [], files = [(''/tmp/a.rpm'', ''A'')], dirs = [''/tmp'']\<rparr>"

text \<open>A bucket of 1001 objects under \<open>nightly/\<close>, all of whose calls succeed.\<close>

definition many_keys :: "nat \<Rightarrow> string list" where
  "many_keys n = map (\<lambda>i. ''nightly/'' @ replicate (Suc i) CHR ''a'') [0..<n]"

definition big_world :: world where
  "big_world = \<lparr>objects = map (\<lambda>k. (k, ''x'')) (many_keys 1001), fault = (\<lambda>c k. False),
     calls = [], logs = [], files = [], dirs = []\<rparr>"


text \<open>
  The bucket of the scenario of \<open>DeleteMatching\<close>, and a host whose \<open>regexp.Compile\<close> knows
  two expressions: \<open>^nightly/.*\.rpm$\<close> (a name that starts with \<open>nightly/\<close>, ends with
  \<open>.rpm\<close> and has no line feed in between) and \<open>.*\<close> (any name).
\<close>

definition nightly_world :: world where
  "nightly_world = \<lparr>objects = [(''nightly/a.rpm'', ''A''), (''nightly/a.rpm.sig'', ''S''),
       (''nightly/notes.txt'', ''N'')],
     fault = (\<lambda>c k. False), calls = [], logs = [], files = [], dirs = []\<rparr>"

definition nightly_rpm :: string where
  "nightly_rpm = ''^nightly/.*'' @ [CHR 0x5C] @ ''.rpm$''"

definition regexp_host :: host where
  "regexp_host = demo_host\<lparr>regexp_Compile :=
     (\<lambda>e. if e = nightly_rpm
          then Inr (\<lambda>s. 12 \<le> length s \<and> take 8 s = ''nightly/'' \<and>
                        drop (length s - 4) s = ''.rpm'' \<and>
                        CHR 0x0A \<notin> set (take (length s - 12) (drop 8 s)))
          else if e = ''.*'' then Inr (\<lambda>s. True)
          else Inl (RegexpError e))\<rparr>"

text \<open>A queue that accepts every job and whose jobs all succeed, and an empty local tree.\<close>

definition demo_sync :: sync_host where
  "demo_sync = \<lparr>filepath_Join = (\<lambda>a b. a @ ''/'' @ b), walk = (\<lambda>d. []),
     queue_Put = (\<lambda>job. None), queue_Wait = (\<lambda>jobs w. ([], w))\<rparr>"

text \<open>
  A job on one RPM repository, a builder that always succeeds, and a host on which the
  worker queue does not start.
\<close>

definition demo_distro :: RepositoryDefinition where
  "demo_distro = \<lparr>Type = RPM, Distro_Bucket = ''repo'', Repos = [''yum/redhat/7'']\<rparr>"

definition demo_impl :: jobImpl where
  "demo_impl = \<lparr>rebuildRepo = (\<lambda>changed w. (None, w)),
     injectPackage = (\<lambda>local loc w. (Inr (local @ ''/'' @ loc), w))\<rparr>"

definition demo_builder :: job_host where
  "demo_builder = \<lparr>GetBucketWithProfile =
       (\<lambda>nm profile. zero_Bucket\<lparr>name := nm, numJobs := 2, numRetries := 20\<rparr>),
     setupDEBJob = demo_impl, setupRPMJob = demo_impl, Getwd = Inr ''/work''\<rparr>"

definition failing_host :: host where
  "failing_host = demo_host\<lparr>queue_Start := (\<lambda>n. Some (QueueError n))\<rparr>"

section \<open>The retry loops\<close>


lemma invoke_ok:
  "succeeds_at w c 0 \<Longrightarrow> invoke c w = (False, w\<lparr>calls := calls w @ [c]\<rparr>)"
  by (simp add: invoke_def succeeds_at_def)



lemma fails_first_Suc: "fails_first w c (Suc m) \<Longrightarrow> fails_first w c m"
  by (simp add: fails_first_def)



lemma Exists_loop_done:
  "numRetries b < i \<Longrightarrow> Exists_loop b path i ex err w = Some (Returns ((ex, err), w))"
  by (subst Exists_loop.simps) simp







lemma Put_loop_done:
  "numRetries b < i \<Longrightarrow> Put_loop b path body mt i catcher w = Some (Returns (Some catcher, w))"
  by (subst Put_loop.simps) simp





lemma Get_loop_done:
  "numRetries b < i \<Longrightarrow> Get_loop b path i data catcher w = Some (Returns ((data, catcher), w))"
  by (subst Get_loop.simps) simp









lemma Get_finish:
  assumes "can_write_local h w fileName"
  shows "\<exists>w'. (case (if stat_IsNotExist w (filepath_Dir h fileName)
                      then MkdirAll h (filepath_Dir h fileName) w else (None, w)) of
            (Some err, w2) \<Rightarrow> Some (Returns (Some (ErrGetMkdir err), w2))
          | (None, w2) \<Rightarrow>
              (case WriteFile h fileName data w2 of
                 (None, w3) \<Rightarrow> Some (Returns (None, w3))
               | (Some err, w3) \<Rightarrow> Some (Returns (Some (ErrGetWrite err fileName), w3))))
          = Some (Returns (None, w'))
        \<and> calls w' = calls w \<and> objects w' = objects w \<and> map_of (files w') fileName = Some data"
  using assms
  by (auto simp: can_write_local_def stat_IsNotExist_def MkdirAll_def WriteFile_def)



subsection \<open>The retry bound\<close>




subsection \<open>A retry count of zero\<close>

text \<open>
  C9. \<open>SetNumRetries\<close> rejects only negative values, so it accepts 0; on a handle with a
  retry count of 0 the retried operations make no remote call and report success:
  \<open>Exists\<close> returns \<open>(false, nil)\<close>, \<open>Put\<close> (of a readable local file, outside dry-run mode)
  returns \<open>nil\<close> and uploads nothing, and \<open>Get\<close> (to a local file that can be written)
  returns \<open>nil\<close> after writing an empty local file.
\<close>

theorem zero_retries:
  "SetNumRetries b 0 = (None, b\<lparr>numRetries := 0\<rparr>) \<and>
   (fst (SetNumRetries b n) = (if n < 0 then Some (ErrNumRetries n) else None)) \<and>
   (numRetries b = 0 \<longrightarrow> Exists b path w = Some (Returns ((False, None), w))) \<and>
   (numRetries b = 0 \<and> \<not> dryRun b \<and> \<not> stat_IsNotExist w fileName \<and>
    ReadFile h w fileName = Inr body \<longrightarrow> Put h b fileName path w = Some (Returns (None, w))) \<and>
   (numRetries b = 0 \<and> can_write_local h w fileName \<longrightarrow>
      (\<exists>w'. Get h b path fileName w = Some (Returns (None, w')) \<and>
            calls w' = calls w \<and> objects w' = objects w \<and>
            map_of (files w') fileName = Some []))"
proof (intro conjI impI)
  show "SetNumRetries b 0 = (None, b\<lparr>numRetries := 0\<rparr>)"
    by (simp add: SetNumRetries_def)
  show "fst (SetNumRetries b n) = (if n < 0 then Some (ErrNumRetries n) else None)"
    by (simp add: SetNumRetries_def)
next
  assume "numRetries b = 0"
  then show "Exists b path w = Some (Returns ((False, None), w))"
    by (simp add: Exists_def Exists_loop_done)
next
  assume "numRetries b = 0 \<and> \<not> dryRun b \<and> \<not> stat_IsNotExist w fileName \<and>
    ReadFile h w fileName = Inr body"
  then show "Put h b fileName path w = Some (Returns (None, w))"
    by (simp add: Put_def Put_loop_done)
next
  assume a: "numRetries b = 0 \<and> can_write_local h w fileName"
  then have l: "Get_loop b path 1 [] [] w = Some (Returns (([], []), w))"
    by (simp add: Get_loop_done)
  from a Get_finish[of h w fileName "[]"] l
  show "\<exists>w'. Get h b path fileName w = Some (Returns (None, w')) \<and>
            calls w' = calls w \<and> objects w' = objects w \<and>
            map_of (files w') fileName = Some []"
    by (auto simp: Get_def)
qed

theorem zero_retries_witness:
  "fst (SetNumRetries demo_bucket 0) = None \<and>
   numRetries (snd (SetNumRetries demo_bucket 0)) = 0 \<and>
   Exists (snd (SetNumRetries demo_bucket 0)) ''pkg/a.rpm'' demo_world =
     Some (Returns ((False, None), demo_world)) \<and>
   Put demo_host (snd (SetNumRetries demo_bucket 0)) ''/tmp/a.rpm'' ''pkg/b.rpm'' demo_world
     = Some (Returns (None, demo_world)) \<and>
   (\<exists>w'. Get demo_host (snd (SetNumRetries demo_bucket 0)) ''pkg/a.rpm'' ''/tmp/c.rpm'' demo_world
            = Some (Returns (None, w')) \<and>
          calls w' = [] \<and> map_of (files w') ''/tmp/c.rpm'' = Some [])"
proof -
  let ?b = "demo_bucket\<lparr>numRetries := 0\<rparr>"
  have s: "SetNumRetries demo_bucket 0 = (None, ?b)"
    by (simp add: SetNumRetries_def)
  have loc: "numRetries ?b = 0" "\<not> dryRun ?b" "\<not> stat_IsNotExist demo_world ''/tmp/a.rpm''"
    "ReadFile demo_host demo_world ''/tmp/a.rpm'' = Inr ''A''"
    "can_write_local demo_host demo_world ''/tmp/c.rpm''"
    "calls demo_world = []"
    by (simp_all add: demo_bucket_def zero_Bucket_def demo_world_def demo_host_def
        stat_IsNotExist_def ReadFile_def can_write_local_def)
  show ?thesis
    using zero_retries[where b="?b" and w=demo_world and h=demo_host
        and fileName="''/tmp/c.rpm''" and path="''pkg/a.rpm''"]
      zero_retries[where b="?b" and w=demo_world and h=demo_host
        and fileName="''/tmp/a.rpm''" and path="''pkg/b.rpm''" and body="''A''"]
      loc
    by (simp add: s) blast
qed

subsection \<open>Creating handles\<close>

lemma NewBucket_copies:
  "credentials (NewBucket b nm) = credentials b \<and>
   NewFilePermission (NewBucket b nm) = NewFilePermission b \<and>
   numJobs (NewBucket b nm) = numJobs b \<and> name (NewBucket b nm) = nm \<and>
   \<not> opened (NewBucket b nm) \<and> \<not> dryRun (NewBucket b nm)"
  by (simp add: NewBucket_def zero_Bucket_def)

lemma Open_keeps:
  "Open h b = (r, b') \<Longrightarrow>
   credentials b' = credentials b \<and> NewFilePermission b' = NewFilePermission b \<and>
   numJobs b' = numJobs b \<and> numRetries b' = numRetries b \<and> name b' = name b \<and>
   dryRun b' = dryRun b \<and> opened b'"
  by (auto simp: Open_def Let_def split: if_splits)

lemma Clone_copies:
  assumes "Clone h b = Inr c"
  shows "credentials c = credentials b \<and> NewFilePermission c = NewFilePermission b \<and>
   numJobs c = numJobs b \<and> numRetries c = numRetries b \<and> name c = name b \<and>
   opened c = opened b \<and> \<not> dryRun c"
proof (cases "opened b")
  case False
  with assms show ?thesis by (auto simp: Clone_def Let_def zero_Bucket_def)
next
  case True
  let ?clone = "zero_Bucket\<lparr>name := name b, opened := False,
            NewFilePermission := NewFilePermission b, credentials := credentials b,
            numJobs := numJobs b, numRetries := numRetries b\<rparr>"
  from True assms have o: "Open h ?clone = (None, c)"
    by (auto simp: Clone_def Let_def split: prod.splits option.splits)
  from Open_keeps[OF o] True show ?thesis by (simp add: zero_Bucket_def)
qed

text \<open>
  C8. \<open>NewBucket\<close> does not copy the retry count of the source handle: the new handle has
  20 retries whatever the source has. Here the source has 5.
\<close>

theorem NewBucket_retry_count:
  "numRetries (snd (SetNumRetries demo_bucket 5)) = 5 \<and>
   numRetries (NewBucket (snd (SetNumRetries demo_bucket 5)) ''other'') = 20"
  by (simp add: SetNumRetries_def NewBucket_def)

subsection \<open>Dry-run mode\<close>

lemma mutations_log [simp]: "mutations (log l w) = mutations w"
  by (simp add: mutations_def log_def)

lemma objects_log [simp]: "objects (log l w) = objects w"
  by (simp add: log_def)

lemma calls_log [simp]: "calls (log l w) = calls w"
  by (simp add: log_def)

lemma fault_log [simp]: "fault (log l w) = fault w"
  by (simp add: log_def)

lemma dry_run_Put:
  "dryRun b \<Longrightarrow>
   \<exists>r w'. Put h b fileName path w = Some (Returns (r, w')) \<and> calls w' = calls w \<and>
     objects w' = objects w"
  by (simp add: Put_def Let_def split: sum.splits)

lemma dry_run_deleteGroup_loop:
  "dryRun b \<Longrightarrow> deleteGroup_loop b items toDelete n w = (r, w') \<Longrightarrow>
     calls w' = calls w \<and> objects w' = objects w \<and> (\<exists>t. r = Inr t)"
  by (induction b items toDelete n w rule: deleteGroup_loop.induct)
     (auto split: if_splits)

lemma dry_run_deleteGroup:
  assumes "dryRun b"
  shows "fst (deleteGroup b items w) = None \<and> calls (snd (deleteGroup b items w)) = calls w \<and>
     objects (snd (deleteGroup b items w)) = objects w"
proof -
  obtain r w' where l: "deleteGroup_loop b items [] 0 w = (r, w')"
    by (cases "deleteGroup_loop b items [] 0 w")
  from dry_run_deleteGroup_loop[OF assms l] obtain t where
    "calls w' = calls w" "objects w' = objects w" "r = Inr t" by blast
  with l assms show ?thesis by (simp add: deleteGroup_def)
qed

text \<open>
  C1. \<open>Delete\<close> has no dry-run branch: on a handle made by \<open>DryRunClone\<close> it calls
  \<open>b.bucket.Del\<close> and the object is gone, while \<open>DeleteMany\<close> with the same single path
  on the same handle leaves the bucket alone.
\<close>

theorem Delete_ignores_dry_run:
  "(case DryRunClone demo_host demo_bucket of
      Inl err \<Rightarrow> False
    | Inr b \<Rightarrow>
        dryRun b \<and>
        Delete b ''pkg/a.rpm'' (demo_world\<lparr>fault := \<lambda>c k. False\<rparr>) =
          (None, demo_world\<lparr>fault := \<lambda>c k. False, calls := [DelCall ''pkg/a.rpm''],
                  objects := [], logs := [LogRemoving ''repo'' ''pkg/a.rpm'']\<rparr>) \<and>
        objects (snd (DeleteMany b [''pkg/a.rpm''] (demo_world\<lparr>fault := \<lambda>c k. False\<rparr>))) =
          [(''pkg/a.rpm'', ''A'')])"
  by (simp add: DryRunClone_def Clone_def Open_def demo_bucket_def demo_host_def zero_Bucket_def
      Delete_def bucket_Del_def invoke_def log_def demo_world_def DeleteMany_def)

subsection \<open>Listing a bucket whose calls all succeed\<close>

lemma filter_after_nth:
  assumes "sorted_wrt (<) (xs :: 'a :: linorder list)" "n < length xs"
  shows "filter (\<lambda>k. xs ! n < k) xs = drop (Suc n) xs"
proof -
  have a: "filter (\<lambda>k. xs ! n < k) (take (Suc n) xs) = []"
  proof -
    have "\<forall>x \<in> set (take (Suc n) xs). \<not> xs ! n < x"
    proof
      fix x assume "x \<in> set (take (Suc n) xs)"
      then obtain i where i: "i < Suc n" "i < length xs" "x = xs ! i"
        by (auto simp: in_set_conv_nth)
      show "\<not> xs ! n < x"
      proof (cases "i = n")
        case True with i show ?thesis by simp
      next
        case False
        with i have "i < n" by simp
        from sorted_wrt_nth_less[OF assms(1) this assms(2)] i show ?thesis by simp
      qed
    qed
    then show ?thesis by (simp add: filter_empty_conv)
  qed
  have b: "filter (\<lambda>k. xs ! n < k) (drop (Suc n) xs) = drop (Suc n) xs"
  proof -
    have "\<forall>x \<in> set (drop (Suc n) xs). xs ! n < x"
    proof
      fix x assume "x \<in> set (drop (Suc n) xs)"
      then obtain i where i: "i < length xs - Suc n" "x = xs ! (Suc n + i)"
        by (auto simp: in_set_conv_nth)
      then have "n < Suc n + i" "Suc n + i < length xs" by auto
      from sorted_wrt_nth_less[OF assms(1) this] i show "xs ! n < x" by simp
    qed
    then show ?thesis by simp
  qed
  have "filter (\<lambda>k. xs ! n < k) xs
      = filter (\<lambda>k. xs ! n < k) (take (Suc n) xs @ drop (Suc n) xs)" by simp
  also have "\<dots> = drop (Suc n) xs" unfolding filter_append a b by simp
  finally show ?thesis .
qed

lemma keys_of_strict: "sorted_wrt (<) (keys_of w)"
  by (simp add: keys_of_def strict_sorted_iff)

lemma listed_strict: "sorted_wrt (<) (listed prefix marker w)"
  unfolding listed_def using keys_of_strict by (rule sorted_wrt_filter)

lemma filter_marker:
  "(m :: 'a :: order) < x \<Longrightarrow>
   filter (\<lambda>k. P k \<and> x < k) ks = filter (\<lambda>k. x < k) (filter (\<lambda>k. P k \<and> m < k) ks)"
  by (induction ks) (auto dest: less_trans)

lemma listed_next:
  assumes "n < length (listed prefix marker w)"
  shows "listed prefix (listed prefix marker w ! n) w = drop (Suc n) (listed prefix marker w)"
proof -
  define L where "L = listed prefix marker w"
  define x where "x = L ! n"
  have mem: "x \<in> set L" using assms by (simp add: x_def L_def)
  then have gt: "marker < x" by (simp add: L_def listed_def)
  have "listed prefix x w = filter (\<lambda>k. x < k) L"
    unfolding listed_def L_def by (rule filter_marker[OF gt])
  also have "\<dots> = drop (Suc n) L"
    unfolding x_def using listed_strict assms unfolding L_def[symmetric]
    by (intro filter_after_nth) (auto simp: L_def)
  finally show ?thesis by (simp add: x_def L_def)
qed

lemma bucket_List_reliable:
  "reliable w \<Longrightarrow> bucket_List prefix [] marker 1000 w =
     (Inr (map (key_of w) (take 1000 (listed prefix marker w)),
           1000 < length (listed prefix marker w)),
      w\<lparr>calls := calls w @ [ListCall prefix [] marker 1000]\<rparr>)"
  by (simp add: bucket_List_def invoke_def reliable_def listed_def Let_def)

lemma list_loop_reliable:
  "reliable w \<Longrightarrow>
   fst (list_loop prefix marker out w) = out @ map (key_of w) (listed prefix marker w) \<and>
   objects (snd (list_loop prefix marker out w)) = objects w \<and>
   fault (snd (list_loop prefix marker out w)) = fault w \<and>
   logs (snd (list_loop prefix marker out w)) = logs w \<and>
   mutations (snd (list_loop prefix marker out w)) = mutations w"
proof (induction prefix marker out w rule: list_loop.induct)
  case (1 prefix lastKey out w)
  let ?L = "listed prefix lastKey w"
  let ?w' = "w\<lparr>calls := calls w @ [ListCall prefix [] lastKey 1000]\<rparr>"
  note bl = bucket_List_reliable[OF "1.prems", of prefix lastKey]
  show ?case
  proof (cases "1000 < length ?L")
    case False
    then show ?thesis
      by (subst (1 2 3 4 5) list_loop.simps) (simp add: bl mutations_def mutating_def)
  next
    case True
    let ?res = "map (key_of w) (take 1000 ?L)"
    let ?lk = "Key (last ?res)"
    from True have ne: "take 1000 ?L \<noteq> []" by auto
    then have resne: "?res \<noteq> []" by simp
    have lk: "?lk = ?L ! 999"
      using True ne by (simp add: last_map key_of_def last_conv_nth min_def)
    have rel': "reliable ?w'" using "1.prems" by (simp add: reliable_def)
    have ko: "key_of ?w' = key_of w" by (auto simp: key_of_def fun_eq_iff)
    have lis: "listed prefix ?lk ?w' = drop 1000 ?L"
    proof -
      have "listed prefix ?lk ?w' = listed prefix ?lk w"
        by (simp add: listed_def keys_of_def)
      also have "\<dots> = listed prefix (?L ! 999) w"
        by (simp only: lk)
      also have "\<dots> = drop (Suc 999) ?L" using True by (intro listed_next) simp
      finally show ?thesis by simp
    qed
    have IH: "fst (list_loop prefix ?lk (out @ ?res) ?w') = (out @ ?res) @ map (key_of ?w') (listed prefix ?lk ?w') \<and>
      objects (snd (list_loop prefix ?lk (out @ ?res) ?w')) = objects ?w' \<and>
      fault (snd (list_loop prefix ?lk (out @ ?res) ?w')) = fault ?w' \<and>
      logs (snd (list_loop prefix ?lk (out @ ?res) ?w')) = logs ?w' \<and>
      mutations (snd (list_loop prefix ?lk (out @ ?res) ?w')) = mutations ?w'"
      using True resne by (intro "1.IH"[OF bl[symmetric] refl refl _ _ rel']) auto
    have step: "list_loop prefix lastKey out w = list_loop prefix ?lk (out @ ?res) ?w'"
      using True resne by (subst list_loop.simps) (simp add: bl)
    have "take 1000 ?L @ drop 1000 ?L = ?L" by simp
    then have app: "map (key_of w) (take 1000 ?L) @ map (key_of w) (drop 1000 ?L) = map (key_of w) ?L"
      by (metis map_append)
    show ?thesis
      unfolding step using IH by (simp add: ko lis app mutations_def mutating_def)
  qed
qed

lemma list_bucket_reliable:
  assumes "reliable w"
  shows "fst (list_bucket prefix w) = map (key_of w) (listed (list_prefix prefix) [] w) \<and>
     objects (snd (list_bucket prefix w)) = objects w \<and>
     fault (snd (list_bucket prefix w)) = fault w \<and>
     logs (snd (list_bucket prefix w)) = logs w \<and>
     mutations (snd (list_bucket prefix w)) = mutations w"
  using list_loop_reliable[OF assms, of "list_prefix prefix" "[]" "[]"]
  by (simp add: list_bucket_def list_prefix_def Let_def)

subsection \<open>Batches of deletes\<close>

lemma deleteGroup_loop_short:
  "n + length items < 1000 \<Longrightarrow>
   deleteGroup_loop b items toDelete n w = (Inr (toDelete @ map Key items), w)"
  by (induction items arbitrary: toDelete n) auto

lemma deleteGroup_loop_full:
  "\<not> dryRun b \<Longrightarrow> n \<le> 1000 \<Longrightarrow> 1000 \<le> n + length items \<Longrightarrow>
   deleteGroup_loop b items toDelete n w =
     (case bucket_DelMulti (toDelete @ map Key (take (1000 - n) items)) w of
        (r, w') \<Rightarrow> (Inl (map_option (\<lambda>e. ErrIntermediateDelete e (name b) 1000) r), w'))"
proof (induction items arbitrary: toDelete n)
  case Nil
  then show ?case by simp
next
  case (Cons key items)
  show ?case
  proof (cases "n = 1000")
    case True
    with Cons.prems show ?thesis by simp
  next
    case False
    with Cons.prems have "Suc n \<le> 1000" "1000 \<le> Suc n + length items" by auto
    from Cons.IH[OF Cons.prems(1) this, of "toDelete @ [Key key]"] False Cons.prems(2)
    show ?thesis by (simp add: take_Cons')
  qed
qed

lemma deleteGroup_live:
  assumes "\<not> dryRun b"
  shows "deleteGroup b items w =
     (if items = [] then (None, w)
      else if length items < 1000 then
        (case bucket_DelMulti (map Key items) w of
           (r, w') \<Rightarrow> (map_option (\<lambda>e. ErrLastDelete e (name b) (length items)) r, w'))
      else
        (case bucket_DelMulti (map Key (take 1000 items)) w of
           (r, w') \<Rightarrow> (map_option (\<lambda>e. ErrIntermediateDelete e (name b) 1000) r, w')))"
proof (cases "length items < 1000")
  case True
  with assms deleteGroup_loop_short[of 0 items b "[]" w] show ?thesis
    by (simp add: deleteGroup_def)
next
  case False
  with assms deleteGroup_loop_full[of b 0 items "[]" w] show ?thesis
    by (auto simp: deleteGroup_def split: prod.splits)
qed

lemma bucket_DelMulti_calls:
  "calls (snd (bucket_DelMulti ks w)) = calls w @ [DelMultiCall ks]"
  by (simp add: bucket_DelMulti_def invoke_def split: bool.splits)

lemma bucket_DelMulti_ok:
  "succeeds_at w (DelMultiCall ks) 0 \<Longrightarrow>
   bucket_DelMulti ks w =
     (None, w\<lparr>calls := calls w @ [DelMultiCall ks],
              objects := filter (\<lambda>kv. fst kv \<notin> set ks) (objects w)\<rparr>)"
  by (simp add: bucket_DelMulti_def invoke_ok)

lemma bulk_deletes_append [simp]: "bulk_deletes (xs @ ys) = bulk_deletes xs @ bulk_deletes ys"
  by (simp add: bulk_deletes_def)

lemma bulk_deletes_single [simp]: "bulk_deletes [DelMultiCall ks] = [ks]"
  by (simp add: bulk_deletes_def)

lemma bulk_deletes_Nil [simp]: "bulk_deletes [] = []"
  by (simp add: bulk_deletes_def)

text \<open>
  C2. Outside dry-run mode, \<open>deleteGroup\<close> returns from inside its loop as soon as the first
  batch of 1000 keys has been sent: for more than 1000 keys it issues exactly one bulk
  delete, with the first 1000 keys, instead of one call per batch; the keys after the
  first 1000 are never sent and stay in the bucket.
\<close>

theorem deleteGroup_sends_one_batch:
  assumes "\<not> dryRun b" and "1000 < length items"
  shows "bulk_deletes (calls (snd (deleteGroup b items w))) =
           bulk_deletes (calls w) @ [map Key (take 1000 items)] \<and>
         (succeeds_at w (DelMultiCall (map Key (take 1000 items))) 0 \<longrightarrow>
            fst (deleteGroup b items w) = None \<and>
            objects (snd (deleteGroup b items w)) =
              filter (\<lambda>kv. fst kv \<notin> set (map Key (take 1000 items))) (objects w))"
proof -
  let ?ks = "map Key (take 1000 items)"
  have d: "deleteGroup b items w =
     (case bucket_DelMulti ?ks w of
        (r, w') \<Rightarrow> (map_option (\<lambda>e. ErrIntermediateDelete e (name b) 1000) r, w'))"
    using assms by (subst deleteGroup_live) auto
  have "snd (deleteGroup b items w) = snd (bucket_DelMulti ?ks w)"
    by (simp add: d split: prod.splits)
  then have c: "bulk_deletes (calls (snd (deleteGroup b items w))) =
           bulk_deletes (calls w) @ [?ks]"
    by (simp add: bucket_DelMulti_calls)
  have "fst (deleteGroup b items w) = None \<and>
        objects (snd (deleteGroup b items w)) = filter (\<lambda>kv. fst kv \<notin> set ?ks) (objects w)"
    if "succeeds_at w (DelMultiCall ?ks) 0"
    using bucket_DelMulti_ok[OF that] by (simp add: d)
  with c show ?thesis by blast
qed

theorem deleteGroup_sends_one_batch_witness:
  "\<not> dryRun demo_bucket \<and> length (many_keys 1001) = 1001 \<and>
   bulk_deletes (calls (snd (deleteGroup demo_bucket (map (key_of big_world) (many_keys 1001))
      big_world))) = [take 1000 (many_keys 1001)] \<and>
   fst (deleteGroup demo_bucket (map (key_of big_world) (many_keys 1001)) big_world) = None"
proof -
  have a: "\<not> dryRun demo_bucket" by (simp add: demo_bucket_def zero_Bucket_def)
  have l: "length (many_keys 1001) = 1001" by (simp add: many_keys_def)
  have b: "1000 < length (map (key_of big_world) (many_keys 1001))" by (simp add: l)
  have k: "map Key (take 1000 (map (key_of big_world) (many_keys 1001))) = take 1000 (many_keys 1001)"
    by (simp add: take_map key_of_def comp_def)
  have s: "succeeds_at big_world c 0" for c
    by (simp add: succeeds_at_def big_world_def)
  have c: "calls big_world = []" by (simp add: big_world_def)
  show ?thesis
    using deleteGroup_sends_one_batch[OF a b, of big_world] s a l
    by (simp add: k c)
qed

subsection \<open>What the deleting operations leave in the bucket\<close>

lemma keys_of_filter:
  "objects w' = filter (\<lambda>kv. fst kv \<notin> D) (objects w) \<Longrightarrow>
   keys_of w' = filter (\<lambda>k. k \<notin> D) (keys_of w)"
proof -
  assume o: "objects w' = filter (\<lambda>kv. fst kv \<notin> D) (objects w)"
  have "map fst (filter (\<lambda>kv. fst kv \<notin> D) (objects w)) = filter (\<lambda>k. k \<notin> D) (map fst (objects w))"
    by (simp add: filter_map comp_def)
  then show ?thesis
    by (simp add: keys_of_def o remdups_filter filter_sort)
qed

lemma listed_filter:
  "keys_of w' = filter (\<lambda>k. k \<notin> D) (keys_of w) \<Longrightarrow>
   listed prefix marker w' = filter (\<lambda>k. k \<notin> D) (listed prefix marker w)"
  by (auto simp: listed_def intro!: filter_cong)

lemma filter_not_in_take:
  "distinct xs \<Longrightarrow> filter (\<lambda>k. k \<notin> set (take n xs)) xs = drop n xs"
proof -
  assume d: "distinct xs"
  have "distinct (take n xs @ drop n xs)" using d by simp
  then have dis: "set (take n xs) \<inter> set (drop n xs) = {}" by (simp only: distinct_append) 
  have "filter (\<lambda>k. k \<notin> set (take n xs)) (take n xs @ drop n xs) = drop n xs"
    unfolding filter_append using dis by (auto simp: filter_empty_conv filter_id_conv)
  then show ?thesis by simp
qed

lemma bulk_deletes_mutations: "bulk_deletes (filter mutating cs) = bulk_deletes cs"
  by (induction cs) (auto simp: bulk_deletes_def mutating_def split: call.splits)

lemma bulk_deletes_of_mutations:
  "mutations w' = mutations w \<Longrightarrow> bulk_deletes (calls w') = bulk_deletes (calls w)"
  by (metis bulk_deletes_mutations mutations_def)

lemma reliable_succeeds: "reliable w \<Longrightarrow> fault w' = fault w \<Longrightarrow> succeeds_at w' c n"
  by (simp add: reliable_def succeeds_at_def)

text \<open>
  The batch that \<open>deleteGroup\<close> sends for the keys \<open>ks\<close> outside dry-run mode: all of them
  when they are fewer than 1000, otherwise the first 1000.
\<close>

lemma deleteGroup_reliable:
  assumes "\<not> dryRun b" "reliable w"
  shows "fst (deleteGroup b (map (key_of w0) ks) w) = None \<and>
     keys_of (snd (deleteGroup b (map (key_of w0) ks) w)) =
       filter (\<lambda>k. k \<notin> set (take 1000 ks)) (keys_of w) \<and>
     bulk_deletes (calls (snd (deleteGroup b (map (key_of w0) ks) w))) =
       bulk_deletes (calls w) @ (if ks = [] then [] else [take 1000 ks])"
proof -
  have k: "map (Key \<circ> key_of w0) xs = xs" for xs
    by (simp add: key_of_def comp_def)
  have s: "succeeds_at w c 0" for c
    using assms(2) by (simp add: reliable_succeeds)
  show ?thesis
  proof (cases "ks = []")
    case True
    then show ?thesis using assms by (simp add: deleteGroup_live)
  next
    case False
    show ?thesis
    proof (cases "length ks < 1000")
      case True
      with False show ?thesis
        using assms bucket_DelMulti_ok[OF s, of ks]
        by (simp add: deleteGroup_live k keys_of_filter[where D="set ks"])
    next
      case False
      have t: "map Key (take 1000 (map (key_of w0) ks)) = take 1000 ks"
        by (simp add: take_map key_of_def comp_def)
      from False \<open>ks \<noteq> []\<close> show ?thesis
        using assms bucket_DelMulti_ok[OF s, of "take 1000 ks"]
        by (simp add: deleteGroup_live t keys_of_filter[where D="set (take 1000 ks)"])
    qed
  qed
qed

subsection \<open>DeleteMatching\<close>

lemma listed_distinct: "distinct (listed prefix marker w)"
  using listed_strict[of prefix marker w] by (simp add: strict_sorted_iff)

lemma DeleteMatching_reliable:
  fixes prefix :: string and w :: world and matcher :: "string \<Rightarrow> bool"
  assumes "\<not> dryRun b" "reliable w" "regexp_Compile h expression = Inr matcher"
  defines "L \<equiv> filter matcher (listed (list_prefix prefix) [] w)"
  shows "fst (DeleteMatching h b prefix expression w) = None \<and>
     keys_of (snd (DeleteMatching h b prefix expression w)) =
       filter (\<lambda>k. k \<notin> set (take 1000 L)) (keys_of w) \<and>
     bulk_deletes (calls (snd (DeleteMatching h b prefix expression w))) =
       bulk_deletes (calls w) @ (if L = [] then [] else [take 1000 L])"
proof -
  obtain items w1 where l: "list_bucket prefix w = (items, w1)"
    by (cases "list_bucket prefix w")
  from list_bucket_reliable[OF assms(2), of prefix] l
  have items: "items = map (key_of w) (listed (list_prefix prefix) [] w)"
    and w1: "objects w1 = objects w" "fault w1 = fault w" "mutations w1 = mutations w"
    by auto
  have f: "filter (\<lambda>item. matcher (Key item)) items = map (key_of w) L"
    by (simp add: items L_def filter_map comp_def key_of_def)
  let ?w2 = "log (LogFound (length (map (key_of w) L)) expression (name b) prefix) w1"
  have rel: "reliable ?w2" using assms(2) w1 by (simp add: reliable_def)
  have k2: "keys_of (log l w1) = keys_of w" for l using w1 by (simp add: keys_of_def)
  have b2: "bulk_deletes (calls (log l w1)) = bulk_deletes (calls w)" for l
    using w1 by (intro bulk_deletes_of_mutations) simp
  have b1: "bulk_deletes (calls w1) = bulk_deletes (calls w)"
    using w1 by (intro bulk_deletes_of_mutations) simp
  have d: "DeleteMatching h b prefix expression w = deleteGroup b (map (key_of w) L) ?w2"
    by (simp add: DeleteMatching_def assms(3) l f Let_def)
  show ?thesis
    unfolding d using deleteGroup_reliable[OF assms(1) rel, of w L] by (simp add: k2 b1)
qed

lemma Nil_less_iff: "([] < (k :: string)) = (k \<noteq> [])"
  by (cases k) auto

lemma DeleteMatching_deletes_matching:
  assumes "\<not> dryRun b" "reliable w" "regexp_Compile h expression = Inr matcher"
    "length (filter matcher (listed (list_prefix prefix) [] w)) \<le> 1000"
  shows "fst (DeleteMatching h b prefix expression w) = None \<and>
     keys_of (snd (DeleteMatching h b prefix expression w)) =
       filter (\<lambda>k. \<not> (take (length (list_prefix prefix)) k = list_prefix prefix \<and> k \<noteq> [] \<and> matcher k))
         (keys_of w)"
proof -
  let ?L = "filter matcher (listed (list_prefix prefix) [] w)"
  have "k \<in> set (take 1000 ?L) \<longleftrightarrow>
        take (length (list_prefix prefix)) k = list_prefix prefix \<and> k \<noteq> [] \<and> matcher k"
    if "k \<in> set (keys_of w)" for k
    using assms(4) that by (auto simp: listed_def Nil_less_iff)
  then have "filter (\<lambda>k. k \<notin> set (take 1000 ?L)) (keys_of w) =
      filter (\<lambda>k. \<not> (take (length (list_prefix prefix)) k = list_prefix prefix \<and> k \<noteq> [] \<and> matcher k))
         (keys_of w)"
    by (intro filter_cong) auto
  with DeleteMatching_reliable[OF assms(1-3), of prefix] show ?thesis by simp
qed

lemma Key_key_of [simp]: "Key (key_of w k) = k"
  by (simp add: key_of_def)

lemma DeleteMatching_scenario:
  "\<not> dryRun demo_bucket \<and>
   fst (DeleteMatching regexp_host demo_bucket ''nightly/'' nightly_rpm nightly_world) = None \<and>
   objects (snd (DeleteMatching regexp_host demo_bucket ''nightly/'' nightly_rpm nightly_world)) =
     [(''nightly/a.rpm.sig'', ''S''), (''nightly/notes.txt'', ''N'')] \<and>
   bulk_deletes (calls (snd (DeleteMatching regexp_host demo_bucket ''nightly/'' nightly_rpm
     nightly_world))) = [[''nightly/a.rpm'']]"
proof -
  have k: "keys_of nightly_world = [''nightly/a.rpm'', ''nightly/a.rpm.sig'', ''nightly/notes.txt'']"
    by (simp add: keys_of_def nightly_world_def less_char_def)
  have c: "regexp_Compile regexp_host nightly_rpm =
     Inr (\<lambda>s. 12 \<le> length s \<and> take 8 s = ''nightly/'' \<and>
                        drop (length s - 4) s = ''.rpm'' \<and>
                        CHR 0x0A \<notin> set (take (length s - 12) (drop 8 s)))"
    by (simp add: regexp_host_def)
  have f: "fault nightly_world = (\<lambda>c k. False)" "calls nightly_world = []"
    by (simp_all add: nightly_world_def)
  have bl: "bucket_List ''nightly/'' [] [] 1000 nightly_world =
      (Inr (map (key_of nightly_world) [''nightly/a.rpm'', ''nightly/a.rpm.sig'', ''nightly/notes.txt''], False),
       nightly_world\<lparr>calls := [ListCall ''nightly/'' [] [] 1000]\<rparr>)"
    by (simp add: bucket_List_def invoke_def k Let_def f)
  have l: "list_bucket ''nightly/'' nightly_world =
      (map (key_of nightly_world) [''nightly/a.rpm'', ''nightly/a.rpm.sig'', ''nightly/notes.txt''],
       nightly_world\<lparr>calls := [ListCall ''nightly/'' [] [] 1000]\<rparr>)"
    by (simp add: list_bucket_def) (subst list_loop.simps, simp add: bl)
  have nd: "\<not> dryRun demo_bucket" by (simp add: demo_bucket_def zero_Bucket_def)
  have o: "objects nightly_world =
      [(''nightly/a.rpm'', ''A''), (''nightly/a.rpm.sig'', ''S''), (''nightly/notes.txt'', ''N'')]"
    by (simp add: nightly_world_def)
  have d: "DeleteMatching regexp_host demo_bucket ''nightly/'' nightly_rpm nightly_world =
      deleteGroup demo_bucket [key_of nightly_world ''nightly/a.rpm'']
        (log (LogFound 1 nightly_rpm (name demo_bucket) ''nightly/'')
           (nightly_world\<lparr>calls := [ListCall ''nightly/'' [] [] 1000]\<rparr>))"
    by (simp add: DeleteMatching_def c l)
  show ?thesis
    unfolding d
    by (simp add: nd deleteGroup_live bucket_DelMulti_def invoke_def f o bulk_deletes_def)
qed

subsection \<open>More than 1000 keys to delete\<close>

lemma distinct_many_keys: "distinct (many_keys n)"
  by (simp add: many_keys_def distinct_map inj_on_def)

lemma length_many_keys [simp]: "length (many_keys n) = n"
  by (simp add: many_keys_def)


lemma big_world_facts:
  "reliable big_world" "calls big_world = []" "set (keys_of big_world) = set (many_keys 1001)"
  "length (keys_of big_world) = 1001"
proof -
  show "reliable big_world" by (simp add: reliable_def big_world_def)
  show "calls big_world = []" by (simp add: big_world_def)
  have m: "map fst (objects big_world) = many_keys 1001"
    by (simp add: big_world_def comp_def)
  show "set (keys_of big_world) = set (many_keys 1001)"
    by (simp add: keys_of_def m)
  show "length (keys_of big_world) = 1001"
    by (simp add: keys_of_def m distinct_remdups_id[OF distinct_many_keys])
qed

lemma big_world_listed:
  "listed ''nightly/'' [] big_world = keys_of big_world"
  "listed [] [] big_world = keys_of big_world"
  by (auto simp: listed_def big_world_facts(3) Nil_less_iff filter_id_conv many_keys_def)


text \<open>
  C7. \<open>DeleteMatching\<close> selects the keys of the listing of the prefix whose full name
  matches, but hands them to \<open>deleteGroup\<close>: when more than 1000 keys match, only the
  first 1000 are deleted and the other matching keys stay in the bucket.
\<close>

theorem DeleteMatching_first_batch_only:
  assumes "\<not> dryRun b" and "reliable w" and "regexp_Compile h expression = Inr matcher"
    and "1000 < length (filter matcher (listed (list_prefix prefix) [] w))"
  shows "fst (DeleteMatching h b prefix expression w) = None \<and>
     bulk_deletes (calls (snd (DeleteMatching h b prefix expression w))) =
       bulk_deletes (calls w) @ [take 1000 (filter matcher (listed (list_prefix prefix) [] w))] \<and>
     filter matcher (listed (list_prefix prefix) [] (snd (DeleteMatching h b prefix expression w))) =
       drop 1000 (filter matcher (listed (list_prefix prefix) [] w))"
proof -
  let ?L = "filter matcher (listed (list_prefix prefix) [] w)"
  let ?w' = "snd (DeleteMatching h b prefix expression w)"
  note r = DeleteMatching_reliable[OF assms(1-3), of prefix]
  from assms(4) have ne: "?L \<noteq> []" by auto
  have d: "distinct ?L" using listed_distinct by (rule distinct_filter)
  have "listed (list_prefix prefix) [] ?w' =
        filter (\<lambda>k. k \<notin> set (take 1000 ?L)) (listed (list_prefix prefix) [] w)"
    using r by (intro listed_filter) simp
  then have "filter matcher (listed (list_prefix prefix) [] ?w') =
        filter matcher (filter (\<lambda>k. k \<notin> set (take 1000 ?L)) (listed (list_prefix prefix) [] w))"
    by simp
  also have "\<dots> = filter (\<lambda>k. k \<notin> set (take 1000 ?L)) ?L"
    unfolding filter_filter by (intro filter_cong) auto
  also have "\<dots> = drop 1000 ?L" by (rule filter_not_in_take[OF d])
  finally show ?thesis using r ne by simp
qed


theorem DeleteMatching_first_batch_only_witness:
  "length (listed ''nightly/'' [] big_world) = 1001 \<and>
   fst (DeleteMatching regexp_host demo_bucket ''nightly/'' ''.*'' big_world) = None \<and>
   length (bulk_deletes (calls (snd (DeleteMatching regexp_host demo_bucket ''nightly/'' ''.*''
     big_world)))) = 1 \<and>
   length (listed ''nightly/'' []
     (snd (DeleteMatching regexp_host demo_bucket ''nightly/'' ''.*'' big_world))) = 1"
proof -
  have a: "\<not> dryRun demo_bucket" by (simp add: demo_bucket_def zero_Bucket_def)
  have c: "regexp_Compile regexp_host ''.*'' = Inr (\<lambda>s. True)"
    by (simp add: regexp_host_def nightly_rpm_def)
  have p: "list_prefix ''nightly/'' = ''nightly/''" by (simp add: list_prefix_def)
  have l: "length (listed ''nightly/'' [] big_world) = 1001"
    by (simp add: big_world_listed big_world_facts)
  have h: "1000 < length (filter (\<lambda>s. True) (listed (list_prefix ''nightly/'') [] big_world))"
    by (simp add: p l)
  show ?thesis
    using DeleteMatching_first_batch_only[OF a big_world_facts(1) c h] l
    by (simp add: p big_world_facts(2))
qed


subsection \<open>DeleteMany\<close>

lemma fold_contents:
  "fold (\<lambda>file out. out(Key file \<mapsto> file)) (map (key_of w) ks) m =
     (\<lambda>p. if p \<in> set ks then Some (key_of w p) else m p)"
  by (induction ks arbitrary: m) (auto simp: fun_eq_iff)

lemma contents_reliable:
  assumes "reliable w"
  shows "fst (contents prefix w) =
       (\<lambda>p. if p \<in> set (listed (list_prefix prefix) [] w) then Some (key_of w p) else None) \<and>
     objects (snd (contents prefix w)) = objects w \<and>
     fault (snd (contents prefix w)) = fault w \<and>
     mutations (snd (contents prefix w)) = mutations w"
proof -
  obtain items w1 where l: "list_bucket prefix w = (items, w1)"
    by (cases "list_bucket prefix w")
  with list_bucket_reliable[OF assms, of prefix] show ?thesis
    by (simp add: contents_def fold_contents)
qed

lemma select_paths_present:
  assumes "cont = (\<lambda>p. if p \<in> S then Some (key_of w0 p) else None)"
  shows "fst (select_paths b cont paths w) = map (key_of w0) (filter (\<lambda>p. p \<in> S) paths) \<and>
     objects (snd (select_paths b cont paths w)) = objects w \<and>
     fault (snd (select_paths b cont paths w)) = fault w \<and>
     calls (snd (select_paths b cont paths w)) = calls w"
proof (induction paths arbitrary: w)
  case Nil
  show ?case by simp
next
  case (Cons p paths)
  show ?case
  proof (cases "p \<in> S")
    case True
    then have c: "cont p = Some (key_of w0 p)" by (simp add: assms)
    obtain ks w' where r: "select_paths b cont paths w = (ks, w')"
      by (cases "select_paths b cont paths w")
    from Cons.IH[of w] r True show ?thesis by (simp add: c)
  next
    case False
    then have c: "cont p = None" by (simp add: assms)
    from Cons.IH[of "log (LogMissingPath p (name b)) w"] False show ?thesis by (simp add: c)
  qed
qed

lemma DeleteMany_reliable:
  assumes "\<not> dryRun b" "reliable w" "length paths \<noteq> 1"
  shows "fst (DeleteMany b paths w) = None \<and>
     keys_of (snd (DeleteMany b paths w)) =
       filter (\<lambda>k. k \<notin> set (take 1000 (present w paths))) (keys_of w) \<and>
     bulk_deletes (calls (snd (DeleteMany b paths w))) =
       bulk_deletes (calls w) @
       (if present w paths = [] then [] else [take 1000 (present w paths)])"
proof -
  obtain cont w1 where c: "contents [] w = (cont, w1)" by (cases "contents [] w")
  from contents_reliable[OF assms(2), of "[]"] c
  have cont: "cont = (\<lambda>p. if p \<in> set (listed [] [] w) then Some (key_of w p) else None)"
    and w1: "objects w1 = objects w" "fault w1 = fault w" "mutations w1 = mutations w"
    by (auto simp: list_prefix_def)
  obtain items w2 where s: "select_paths b cont paths w1 = (items, w2)"
    by (cases "select_paths b cont paths w1")
  from select_paths_present[OF cont, of b paths w1] s
  have items: "items = map (key_of w) (present w paths)"
    and w2: "objects w2 = objects w1" "fault w2 = fault w1" "calls w2 = calls w1"
    by (auto simp: present_def)
  have rel: "reliable w2" using assms(2) w1 w2 by (simp add: reliable_def)
  have k2: "keys_of w2 = keys_of w" using w1 w2 by (simp add: keys_of_def)
  have b2: "bulk_deletes (calls w2) = bulk_deletes (calls w)"
    using w1 w2 by (intro bulk_deletes_of_mutations) (simp add: mutations_def)
  have d: "DeleteMany b paths w = deleteGroup b (map (key_of w) (present w paths)) w2"
    using assms(3) by (simp add: DeleteMany_def c s items)
  show ?thesis
    unfolding d using deleteGroup_reliable[OF assms(1) rel, of w "present w paths"]
    by (simp add: k2 b2)
qed

lemma DeleteMany_single:
  "\<not> dryRun b \<Longrightarrow>
   calls (snd (DeleteMany b [p] w)) = calls w @ [DelCall p] \<and>
   (succeeds_at w (DelCall p) 0 \<longrightarrow>
      fst (DeleteMany b [p] w) = None \<and>
      objects (snd (DeleteMany b [p] w)) = filter (\<lambda>kv. fst kv \<noteq> p) (objects w))"
  by (auto simp: DeleteMany_def Delete_def bucket_Del_def invoke_def succeeds_at_def log_def
      split: bool.splits)

lemma nth_not_in_take: "distinct xs \<Longrightarrow> n < length xs \<Longrightarrow> xs ! n \<notin> set (take n xs)"
  by (auto simp: in_set_conv_nth nth_eq_iff_index_eq)

text \<open>
  C10. \<open>DeleteMany\<close> with two or more paths hands the requested paths found in the listing
  of the bucket to \<open>deleteGroup\<close>: when more than 1000 of them are present, only the first
  1000 are deleted.
\<close>

theorem DeleteMany_first_batch_only:
  assumes "\<not> dryRun b" and "reliable w" and "length paths \<noteq> 1"
    and "1000 < length (present w paths)"
  shows "fst (DeleteMany b paths w) = None \<and>
     bulk_deletes (calls (snd (DeleteMany b paths w))) =
       bulk_deletes (calls w) @ [take 1000 (present w paths)] \<and>
     keys_of (snd (DeleteMany b paths w)) =
       filter (\<lambda>k. k \<notin> set (take 1000 (present w paths))) (keys_of w)"
proof -
  from assms(4) have "present w paths \<noteq> []" by auto
  with DeleteMany_reliable[OF assms(1-3)] show ?thesis by simp
qed



theorem DeleteMany_first_batch_only_witness:
  "length (present big_world (many_keys 1001)) = 1001 \<and>
   fst (DeleteMany demo_bucket (many_keys 1001) big_world) = None \<and>
   length (bulk_deletes (calls (snd (DeleteMany demo_bucket (many_keys 1001) big_world)))) = 1 \<and>
   many_keys 1001 ! 1000 \<in> set (keys_of (snd (DeleteMany demo_bucket (many_keys 1001) big_world)))"
proof -
  have a: "\<not> dryRun demo_bucket" by (simp add: demo_bucket_def zero_Bucket_def)
  have p: "present big_world (many_keys 1001) = many_keys 1001"
    by (simp add: present_def big_world_listed big_world_facts(3))
  have n: "length (many_keys 1001) \<noteq> 1" by simp
  have h: "1000 < length (present big_world (many_keys 1001))" by (simp add: p)
  have m: "many_keys 1001 ! 1000 \<in> set (keys_of big_world)"
    by (simp add: big_world_facts(3))
  have t: "many_keys 1001 ! 1000 \<notin> set (take 1000 (many_keys 1001))"
    by (rule nth_not_in_take[OF distinct_many_keys]) simp
  show ?thesis
    using DeleteMany_first_batch_only[OF a big_world_facts(1) n h] m t
    by (simp add: p big_world_facts(2))
qed

lemma DeleteMany_deletes_intersection:
  assumes "\<not> dryRun b" "reliable w" "length paths \<noteq> 1" "length (present w paths) \<le> 1000"
  shows "fst (DeleteMany b paths w) = None \<and>
     keys_of (snd (DeleteMany b paths w)) =
       filter (\<lambda>k. \<not> (k \<in> set paths \<and> k \<noteq> [])) (keys_of w) \<and>
     bulk_deletes (calls (snd (DeleteMany b paths w))) =
       bulk_deletes (calls w) @ (if present w paths = [] then [] else [present w paths])"
proof -
  have "k \<in> set (take 1000 (present w paths)) \<longleftrightarrow> k \<in> set paths \<and> k \<noteq> []"
    if "k \<in> set (keys_of w)" for k
    using assms(4) that by (auto simp: present_def listed_def Nil_less_iff)
  then have "filter (\<lambda>k. k \<notin> set (take 1000 (present w paths))) (keys_of w) =
      filter (\<lambda>k. \<not> (k \<in> set paths \<and> k \<noteq> [])) (keys_of w)"
    by (intro filter_cong) auto
  with DeleteMany_reliable[OF assms(1-3)] assms(4) show ?thesis by simp
qed

subsection \<open>A listing that fails\<close>






text \<open>
  Every listing is of one of two kinds: some page of it fails, or every page is answered;
  then the listing is complete and nothing is logged.
\<close>

lemma list_loop_answered:
  fixes p m :: string and w :: world
  defines "pc \<equiv> \<lambda>(m :: string) (R :: string list) k.
             ListCall p [] (if k = 0 then m else R ! (1000 * k - 1)) 1000"
  shows "\<forall>k. k = 0 \<or> 1000 * k < length (listed p m w) \<longrightarrow>
           \<not> fault w (pc m (listed p m w) k) (count_list (calls w) (pc m (listed p m w) k)) \<Longrightarrow>
     fst (list_loop p m out w) = out @ map (key_of w) (listed p m w) \<and>
     logs (snd (list_loop p m out w)) = logs w"
proof (induction n \<equiv> "length (listed p m w)" arbitrary: m out w rule: less_induct)
  case less
  define R where "R = listed p m w"
  define c0 where "c0 = ListCall p [] m 1000"
  define w' where "w' = w\<lparr>calls := calls w @ [c0]\<rparr>"
  define res where "res = map (key_of w) (take 1000 R)"
  note ans = less.prems[folded R_def, rule_format]
  have pc0: "pc m R 0 = c0" by (simp add: pc_def c0_def)
  have ok0: "\<not> fault w c0 (count_list (calls w) c0)"
    using ans[of 0] by (simp add: pc0)
  have bl: "bucket_List p [] m 1000 w = (Inr (res, 1000 < length R), w')"
    using ok0
    by (simp add: bucket_List_def invoke_def Let_def R_def listed_def res_def w'_def c0_def)
  show ?case
  proof (cases "1000 < length R")
    case False
    then have "res = map (key_of w) R" by (simp add: res_def)
    with False show ?thesis
      unfolding R_def[symmetric]
      by (subst (1 2) list_loop.simps) (simp add: bl w'_def del: list_loop.simps)
  next
    case len: True
    from len have ne: "take 1000 R \<noteq> []" by auto
    then have resne: "res \<noteq> []" by (simp add: res_def)
    have lk: "Key (last res) = R ! 999"
      using len ne by (simp add: res_def last_map key_of_def last_conv_nth min_def)
    have step: "list_loop p m out w = list_loop p (R ! 999) (out @ res) w'"
      using resne len by (subst list_loop.simps) (simp add: bl lk del: list_loop.simps)
    have R': "listed p (R ! 999) w' = drop 1000 R"
    proof -
      have "listed p (R ! 999) w' = listed p (R ! 999) w"
        by (simp add: listed_def keys_of_def w'_def)
      also have "\<dots> = drop (Suc 999) R" unfolding R_def using len
        by (intro listed_next) (simp add: R_def)
      finally show ?thesis by simp
    qed
    have pcS: "pc (R ! 999) (drop 1000 R) k = pc m R (Suc k)" for k
      using len by (cases k) (simp_all add: pc_def)
    have mem: "m < R ! i" if "i < length R" for i
    proof -
      from that have "R ! i \<in> set (listed p m w)" by (simp add: R_def)
      then show ?thesis by (simp add: listed_def)
    qed
    have cnt: "count_list (calls w') (pc m R (Suc k)) = count_list (calls w) (pc m R (Suc k))"
      if "1000 * Suc k < length R \<or> k = 0" for k
    proof -
      from that len have "1000 * Suc k - 1 < length R" by auto
      from mem[OF this] have "pc m R (Suc k) \<noteq> c0" by (auto simp: pc_def c0_def)
      then show ?thesis by (simp add: w'_def)
    qed
    have IH: "fst (list_loop p (R ! 999) (out @ res) w') =
                (out @ res) @ map (key_of w') (listed p (R ! 999) w') \<and>
              logs (snd (list_loop p (R ! 999) (out @ res) w')) = logs w'"
    proof (rule less.hyps)
      show "length (listed p (R ! 999) w') < length (listed p m w)"
        using len by (simp add: R' R_def[symmetric])
      show "\<forall>k. k = 0 \<or> 1000 * k < length (listed p (R ! 999) w') \<longrightarrow>
          \<not> fault w' (pc (R ! 999) (listed p (R ! 999) w') k)
             (count_list (calls w') (pc (R ! 999) (listed p (R ! 999) w') k))"
      proof (intro allI impI)
        fix k assume k: "k = 0 \<or> 1000 * k < length (listed p (R ! 999) w')"
        then have r: "1000 * Suc k < length R \<or> k = 0" by (auto simp: R')
        with len have "Suc k = 0 \<or> 1000 * Suc k < length R" by auto
        from ans[OF this] cnt[OF r]
        show "\<not> fault w' (pc (R ! 999) (listed p (R ! 999) w') k)
             (count_list (calls w') (pc (R ! 999) (listed p (R ! 999) w') k))"
          by (simp add: R' pcS) (simp add: w'_def)
      qed
    qed
    have ko: "key_of w' = key_of w" by (auto simp: key_of_def fun_eq_iff w'_def)
    have "take 1000 R @ drop 1000 R = R" by simp
    then have app: "res @ map (key_of w) (drop 1000 R) = map (key_of w) R"
      unfolding res_def by (metis map_append)
    show ?thesis
      unfolding step R_def[symmetric] using IH
      by (simp add: R' ko app) (simp add: w'_def)
  qed
qed

lemma list_bucket_complete_or_fails:
  "(\<exists>j. list_fails_at w prefix j) \<or>
   (fst (list_bucket prefix w) = map (key_of w) (listed (list_prefix prefix) [] w) \<and>
    logs (snd (list_bucket prefix w)) = logs w)"
proof -
  define p where "p = list_prefix prefix"
  define L where "L = listed p [] w"
  define bad where
    "bad = (\<lambda>k. (k = 0 \<or> 1000 * k < length L) \<and>
                fault w (page_call p L k) (count_list (calls w) (page_call p L k)))"
  have lb: "list_bucket prefix w = list_loop p [] [] w"
    by (simp add: list_bucket_def list_prefix_def Let_def p_def del: list_loop.simps)
  show ?thesis
  proof (cases "\<exists>k. bad k")
    case True
    define j where "j = (LEAST k. bad k)"
    from True have bj: "bad j" unfolding j_def by (auto intro: LeastI)
    have least: "\<not> bad k" if "k < j" for k
      using that not_less_Least unfolding j_def by blast
    have "\<not> fault w (page_call p L k) (count_list (calls w) (page_call p L k))" if "k < j" for k
    proof -
      from that bj have "k = 0 \<or> 1000 * k < length L" by (auto simp: bad_def)
      with least[OF that] show ?thesis by (simp add: bad_def)
    qed
    with bj have "list_fails_at w prefix j"
      by (simp add: list_fails_at_def Let_def list_all_iff bad_def p_def L_def)
    then show ?thesis by blast
  next
    case False
    then have "\<forall>k. \<not> bad k" by blast
    then have "\<forall>k. k = 0 \<or> 1000 * k < length (listed p [] w) \<longrightarrow>
        \<not> fault w (ListCall p [] (if k = 0 then [] else listed p [] w ! (1000 * k - 1)) 1000)
           (count_list (calls w)
              (ListCall p [] (if k = 0 then [] else listed p [] w ! (1000 * k - 1)) 1000))"
      unfolding bad_def page_call_def L_def by blast
    from list_loop_answered[OF this, of "[]"] show ?thesis
      by (simp add: lb p_def del: list_loop.simps)
  qed
qed






section \<open>The build job\<close>

lemma Run_open_fails:
  assumes "Open h (GetBucketWithProfile jh (Distro_Bucket (Distro j)) (Profile j)) = (Some err, bkt)"
  shows "Run h sh jh j w = Some (AddError (ErrOpeningBucket err (name bkt)) j, w)"
  using assms by (simp add: Run_def)

text \<open>
  A job made by \<open>NewBuildRepoJob\<close> for a type other than \<open>DEB\<close> and \<open>RPM\<close> has no builder,
  and the goroutine of a repository panics when it comes to \<open>injectNewPackages\<close>.
\<close>

lemma NewBuildRepoJob_builder:
  "NewBuildRepoJob jh distro version arch profile pkgs = Inr j \<Longrightarrow>
   builder j = (case Type distro of DEB \<Rightarrow> Some (setupDEBJob jh)
                | RPM \<Rightarrow> Some (setupRPMJob jh) | OtherType t \<Rightarrow> None)"
  by (auto simp: NewBuildRepoJob_def split: sum.splits)

lemma repo_task_nil_builder:
  assumes "builder j = None"
    and "fst (MkdirAll h (filepath_Join sh (WorkSpace j) remote) w) = None"
    and "fst (SyncFrom sh b
           (filepath_Join sh (filepath_Join sh (WorkSpace j) remote) (getPackageLocation j))
           (filepath_Join sh remote (getPackageLocation j))
           (snd (MkdirAll h (filepath_Join sh (WorkSpace j) remote) w))) = None"
  shows "repo_task h sh remote b j w = None"
  using assms by (auto simp: repo_task_def Let_def split: prod.splits option.splits)

lemma repo_task_keeps:
  "repo_task h sh remote b j w = Some (j', w') \<Longrightarrow>
   IsComplete j' = IsComplete j \<and> events j' = events j"
  by (auto simp: repo_task_def Let_def AddError_def
      split: prod.splits option.splits sum.splits repo_type.splits if_splits)

lemma run_repos_keeps:
  "run_repos h sh bkt repos j w = Some (j', w') \<Longrightarrow>
   IsComplete j' = IsComplete j \<and>
   (\<exists>evs. events j' = events j @ evs \<and> list_all goroutine_event evs)"
proof (induction repos arbitrary: j w)
  case Nil
  then show ?case by simp
next
  case (Cons remote rest)
  show ?case
  proof (cases "Clone h bkt")
    case (Inl err)
    with Cons.prems have "run_repos h sh bkt rest (AddError (ErrCloningBucket err (name bkt)) j) w
        = Some (j', w')" by simp
    from Cons.IH[OF this] show ?thesis by (simp add: AddError_def)
  next
    case (Inr cloned)
    let ?j1 = "emit (Spawned remote) (j\<lparr>workingDirs := workingDirs j @ [remote]\<rparr>)"
    from Cons.prems Inr obtain j2 w2 where
      t: "repo_task h sh remote cloned ?j1 w = Some (j2, w2)" and
      r: "run_repos h sh bkt rest (emit (Closed (name cloned)) (emit (Finished remote) j2)) w2
            = Some (j', w')"
      by (auto split: option.splits)
    from repo_task_keeps[OF t] have k: "IsComplete j2 = IsComplete j"
      "events j2 = events j @ [Spawned remote]" by (simp_all add: emit_def)
    from Cons.IH[OF r] obtain evs where
      e: "IsComplete j' = IsComplete j2"
         "events j' = events j2 @ [Finished remote, Closed (name cloned)] @ evs"
         "list_all goroutine_event evs"
      by (auto simp: emit_def)
    have g: "goroutine_event (Spawned remote)" "goroutine_event (Finished remote)"
      "goroutine_event (Closed (name cloned))"
      by (simp_all add: goroutine_event_def)
    show ?thesis
      using e k g
      by (intro conjI exI[of _ "[Spawned remote, Finished remote, Closed (name cloned)] @ evs"])
         simp_all
  qed
qed

text \<open>
  When the handle opens (and, for a dry run, its clone is made and opens) and no goroutine
  panics, \<open>Run\<close> marks the job complete once, after the join.
\<close>

lemma Run_marks_complete:
  assumes "Run h sh jh j w = Some (j', w')"
    and "fst (Open h (GetBucketWithProfile jh (Distro_Bucket (Distro j)) (Profile j))) = None"
    and "\<not> DryRun j"
  shows "IsComplete j' \<and>
     (\<exists>evs bkt. events j' = events j @ evs @ [Joined, MarkedComplete, Closed bkt] \<and>
        list_all goroutine_event evs)"
proof -
  obtain bkt where o: "Open h (GetBucketWithProfile jh (Distro_Bucket (Distro j)) (Profile j))
      = (None, bkt)"
    using assms(2) by (cases "Open h (GetBucketWithProfile jh (Distro_Bucket (Distro j)) (Profile j))") auto
  from assms(1,3) o obtain j1 w1 where
    r: "run_repos h sh (bkt\<lparr>NewFilePermission := ''public-read''\<rparr>) (Repos (Distro j)) j w
          = Some (j1, w1)"
    and j': "j' = emit (Closed (name bkt)) (markComplete (emit Joined j1))"
    by (auto simp: Run_def split: option.splits)
  from run_repos_keeps[OF r] obtain evs where
    "events j1 = events j @ evs" "list_all goroutine_event evs" by blast
  then show ?thesis
    by (auto simp: j' emit_def markComplete_def)
qed

text \<open>
  C5. \<open>Run\<close> registers \<open>defer j.MarkComplete()\<close> only after the handle has been opened:
  when \<open>bucket.Open\<close> fails (here the worker queue does not start), \<open>Run\<close> records the error
  and returns with the completion flag still false.
\<close>

theorem Run_open_failure_leaves_incomplete:
  "(case NewBuildRepoJob demo_builder demo_distro ''4.2.1'' ''x86_64'' ''default'' [] of
      Inl err \<Rightarrow> False
    | Inr j \<Rightarrow>
        \<not> IsComplete j \<and>
        (case Run failing_host demo_sync demo_builder j demo_world of
           None \<Rightarrow> False
         | Some (j', w') \<Rightarrow>
             \<not> IsComplete j' \<and> events j' = [] \<and>
             Errors j' = [ErrOpeningBucket (ErrStartQueue (QueueError 2)) ''repo'']))"
proof -
  have v: "NewMongoDBVersion ''4.2.1'' = Inr \<lparr>isDev = False, isRc = False, series = ''4.2''\<rparr>"
    by (simp add: NewMongoDBVersion_def is_number_def is_rc_tag_def)
  have g: "GetBucketWithProfile demo_builder ''repo'' ''default'' =
      zero_Bucket\<lparr>name := ''repo'', numJobs := 2, numRetries := 20\<rparr>"
    "Getwd demo_builder = Inr ''/work''"
    by (simp_all add: demo_builder_def)
  have o: "Open failing_host (zero_Bucket\<lparr>name := ''repo'', numJobs := 2, numRetries := 20\<rparr>) =
      (Some (ErrStartQueue (QueueError 2)),
       zero_Bucket\<lparr>name := ''repo'', numJobs := 2, numRetries := 20, s3 := Some (credentials zero_Bucket),
         bucket := Some ''repo'', opened := True, queue := Some 2\<rparr>)"
    by (simp add: Open_def failing_host_def demo_host_def zero_Bucket_def)
  show ?thesis
    by (simp add: NewBuildRepoJob_def v g Run_def demo_distro_def o AddError_def)
qed

subsection \<open>The package location\<close>

lemma NewMongoDBVersion_exclusive:
  "NewMongoDBVersion version = Inr r \<Longrightarrow> \<not> (isDev r \<and> isRc r)"
  by (auto simp: NewMongoDBVersion_def split: list.splits if_splits)

text \<open>
  C6. For every version string that parses, the package location of a job with that
  release is \<open>development\<close> for a development build, \<open>testing\<close> for a release candidate
  and the name of the release series otherwise; \<open>4.3.0-rc1\<close> gives \<open>testing\<close> and
  \<open>4.2.1\<close> gives \<open>4.2\<close>.
\<close>

theorem package_location:
  "(NewMongoDBVersion version = Inr r \<longrightarrow>
      (IsDevelopmentBuild r \<longrightarrow> getPackageLocation (j\<lparr>release := r\<rparr>) = ''development'') \<and>
      (IsReleaseCandidate r \<longrightarrow> getPackageLocation (j\<lparr>release := r\<rparr>) = ''testing'') \<and>
      (\<not> IsDevelopmentBuild r \<and> \<not> IsReleaseCandidate r \<longrightarrow>
         getPackageLocation (j\<lparr>release := r\<rparr>) = Series r)) \<and>
   (\<exists>r. NewMongoDBVersion ''4.3.0-rc1'' = Inr r \<and>
        getPackageLocation (j\<lparr>release := r\<rparr>) = ''testing'') \<and>
   (\<exists>r. NewMongoDBVersion ''4.2.1'' = Inr r \<and>
        getPackageLocation (j\<lparr>release := r\<rparr>) = ''4.2'')"
proof (intro conjI impI)
  assume "NewMongoDBVersion version = Inr r" "IsDevelopmentBuild r"
  then show "getPackageLocation (j\<lparr>release := r\<rparr>) = ''development''"
    by (simp add: getPackageLocation_def)
next
  assume p: "NewMongoDBVersion version = Inr r" and rc: "IsReleaseCandidate r"
  from NewMongoDBVersion_exclusive[OF p] rc have "\<not> IsDevelopmentBuild r"
    by (simp add: IsDevelopmentBuild_def IsReleaseCandidate_def)
  with rc show "getPackageLocation (j\<lparr>release := r\<rparr>) = ''testing''"
    by (simp add: getPackageLocation_def)
next
  assume "\<not> IsDevelopmentBuild r \<and> \<not> IsReleaseCandidate r"
  then show "getPackageLocation (j\<lparr>release := r\<rparr>) = Series r"
    by (simp add: getPackageLocation_def)
next
  have "NewMongoDBVersion ''4.3.0-rc1'' = Inr \<lparr>isDev = False, isRc = True, series = ''4.3''\<rparr>"
    by (simp add: NewMongoDBVersion_def is_number_def is_rc_tag_def)
  then show "\<exists>r. NewMongoDBVersion ''4.3.0-rc1'' = Inr r \<and>
        getPackageLocation (j\<lparr>release := r\<rparr>) = ''testing''"
    by (simp add: getPackageLocation_def IsDevelopmentBuild_def IsReleaseCandidate_def)
next
  have "NewMongoDBVersion ''4.2.1'' = Inr \<lparr>isDev = False, isRc = False, series = ''4.2''\<rparr>"
    by (simp add: NewMongoDBVersion_def is_number_def is_rc_tag_def)
  then show "\<exists>r. NewMongoDBVersion ''4.2.1'' = Inr r \<and>
        getPackageLocation (j\<lparr>release := r\<rparr>) = ''4.2''"
    by (simp add: getPackageLocation_def IsDevelopmentBuild_def IsReleaseCandidate_def
        Series_def)
qed

theorem package_location_witness:
  "(case NewBuildRepoJob demo_builder demo_distro ''4.3.0-rc1'' ''x86_64'' ''default'' [] of
      Inl err \<Rightarrow> False | Inr j \<Rightarrow> getPackageLocation j = ''testing'') \<and>
   (case NewBuildRepoJob demo_builder demo_distro ''4.2.1'' ''x86_64'' ''default'' [] of
      Inl err \<Rightarrow> False | Inr j \<Rightarrow> getPackageLocation j = ''4.2'') \<and>
   (case NewBuildRepoJob demo_builder demo_distro ''4.3.0-45-gabcdef'' ''x86_64'' ''default'' [] of
      Inl err \<Rightarrow> False | Inr j \<Rightarrow> getPackageLocation j = ''development'')"
proof -
  have v: "NewMongoDBVersion ''4.3.0-rc1'' = Inr \<lparr>isDev = False, isRc = True, series = ''4.3''\<rparr>"
    "NewMongoDBVersion ''4.2.1'' = Inr \<lparr>isDev = False, isRc = False, series = ''4.2''\<rparr>"
    "NewMongoDBVersion ''4.3.0-45-gabcdef'' = Inr \<lparr>isDev = True, isRc = False, series = ''4.3''\<rparr>"
    by (simp_all add: NewMongoDBVersion_def is_number_def is_rc_tag_def)
  have g: "Getwd demo_builder = Inr ''/work''" by (simp add: demo_builder_def)
  let ?j = "\<lparr>Distro = demo_distro, DryRun = False, Version = [], Arch = ''x86_64'',
      Profile = ''default'', WorkSpace = ''/work'', PackagePaths = [], workingDirs = [],
      release = \<lparr>isDev = False, isRc = False, series = []\<rparr>, builder = None,
      IsComplete = False, Errors = [], events = []\<rparr>"
  show ?thesis
    using package_location[of "''4.3.0-rc1''" "\<lparr>isDev = False, isRc = True, series = ''4.3''\<rparr>" ?j]
      package_location[of "''4.2.1''" "\<lparr>isDev = False, isRc = False, series = ''4.2''\<rparr>" ?j]
      package_location[of "''4.3.0-45-gabcdef''" "\<lparr>isDev = True, isRc = False, series = ''4.3''\<rparr>" ?j]
    by (simp add: NewBuildRepoJob_def v g IsDevelopmentBuild_def IsReleaseCandidate_def Series_def
        getPackageLocation_def)
qed

subsection \<open>What dry-run mode changes and what it leaves alone\<close>

text \<open>
  The loops of \<open>Exists\<close> and \<open>Get\<close> read the retry count, the name and the pointer
  \<open>b.bucket\<close> of the handle and nothing else.
\<close>

lemma Exists_loop_reads:
  assumes "numRetries b' = numRetries b" "bucket b' = bucket b" "name b' = name b"
  shows "Exists_loop b' path i ex err w = Exists_loop b path i ex err w"
proof -
  define same where
    "same = (\<lambda>(a :: Bucket) (c :: Bucket).
               numRetries c = numRetries a \<and> bucket c = bucket a \<and> name c = name a)"
  have imp: "\<forall>c. same a c \<longrightarrow> Exists_loop c path i ex err w = Some y"
    if "Exists_loop a path i ex err w = Some y" for a path i ex err w y
  proof (rule Exists_loop.raw_induct[where
        P="\<lambda>a path i ex err w y. \<forall>c. same a c \<longrightarrow> Exists_loop c path i ex err w = Some y",
        OF _ that])
    fix loop a path i ex err w y
    assume IH: "\<And>a1 p1 i1 e1 r1 w1 y1. loop a1 p1 i1 e1 r1 w1 = Some y1 \<Longrightarrow>
        \<forall>c. same a1 c \<longrightarrow> Exists_loop c p1 i1 e1 r1 w1 = Some y1"
      and body: "(if i \<le> numRetries a then
           (case bucket a of
              None \<Rightarrow> Some Panics
            | Some x \<Rightarrow>
                (case bucket_Exists path w of
                   (Inl er, w') \<Rightarrow>
                     loop a path (incr i) False (Some (ErrExistsAttempt er path (name a) i)) w'
                 | (Inr e, w') \<Rightarrow> Some (Returns ((e, None), w'))))
         else Some (Returns ((ex, err), w))) = Some y"
    show "\<forall>c. same a c \<longrightarrow> Exists_loop c path i ex err w = Some y"
    proof (intro allI impI)
      fix c assume s: "same a c"
      show "Exists_loop c path i ex err w = Some y"
        using body s IH
        by (subst Exists_loop.simps)
           (auto simp: same_def split: if_splits option.splits prod.splits sum.splits)
    qed
  qed
  have ab: "same b b'" and ba: "same b' b" using assms by (simp_all add: same_def)
  show ?thesis
  proof (cases "Exists_loop b path i ex err w")
    case (Some y)
    with imp[OF Some] ab show ?thesis by simp
  next
    case None
    show ?thesis
    proof (cases "Exists_loop b' path i ex err w")
      case (Some y)
      with imp[OF Some] ba None show ?thesis by simp
    qed (simp add: None)
  qed
qed

lemma Get_loop_reads:
  assumes "numRetries b' = numRetries b" "bucket b' = bucket b"
  shows "Get_loop b' path i data catcher w = Get_loop b path i data catcher w"
proof -
  define same where
    "same = (\<lambda>(a :: Bucket) (c :: Bucket). numRetries c = numRetries a \<and> bucket c = bucket a)"
  have imp: "\<forall>c. same a c \<longrightarrow> Get_loop c path i data catcher w = Some y"
    if "Get_loop a path i data catcher w = Some y" for a path i data catcher w y
  proof (rule Get_loop.raw_induct[where
        P="\<lambda>a path i data catcher w y. \<forall>c. same a c \<longrightarrow> Get_loop c path i data catcher w = Some y",
        OF _ that])
    fix loop a path i data catcher w y
    assume IH: "\<And>a1 p1 i1 d1 c1 w1 y1. loop a1 p1 i1 d1 c1 w1 = Some y1 \<Longrightarrow>
        \<forall>c. same a1 c \<longrightarrow> Get_loop c p1 i1 d1 c1 w1 = Some y1"
      and body: "(if i \<le> numRetries a then
           (case bucket a of
              None \<Rightarrow> Some Panics
            | Some x \<Rightarrow>
                (case bucket_Get path w of
                   (Inl er, w') \<Rightarrow> loop a path (incr i) [] (catcher @ [ErrGetAws er]) w'
                 | (Inr d, w') \<Rightarrow> Some (Returns ((d, []), w'))))
         else Some (Returns ((data, catcher), w))) = Some y"
    show "\<forall>c. same a c \<longrightarrow> Get_loop c path i data catcher w = Some y"
    proof (intro allI impI)
      fix c assume s: "same a c"
      show "Get_loop c path i data catcher w = Some y"
        using body s IH
        by (subst Get_loop.simps)
           (auto simp: same_def split: if_splits option.splits prod.splits sum.splits)
    qed
  qed
  have ab: "same b b'" and ba: "same b' b" using assms by (simp_all add: same_def)
  show ?thesis
  proof (cases "Get_loop b path i data catcher w")
    case (Some y)
    with imp[OF Some] ab show ?thesis by simp
  next
    case None
    show ?thesis
    proof (cases "Get_loop b' path i data catcher w")
      case (Some y)
      with imp[OF Some] ba None show ?thesis by simp
    qed (simp add: None)
  qed
qed

text \<open>
  \<open>Exists\<close> and \<open>Get\<close> do not read the dry-run flag, and \<open>list\<close> does not read the handle
  at all (\<open>list_bucket\<close> has no handle among its arguments).
\<close>

lemma reads_ignore_dryRun:
  "Exists (b\<lparr>dryRun := d\<rparr>) path w = Exists b path w \<and>
   Get h (b\<lparr>dryRun := d\<rparr>) path fileName w = Get h b path fileName w"
  by (simp add: Exists_def Get_def Exists_loop_reads[of "b\<lparr>dryRun := d\<rparr>" b]
      Get_loop_reads[of "b\<lparr>dryRun := d\<rparr>" b]
      split: option.splits outcome.splits prod.splits)

declare list_loop.simps [simp del]

lemma list_loop_frame:
  "objects (snd (list_loop prefix marker out w)) = objects w \<and>
   mutations (snd (list_loop prefix marker out w)) = mutations w"
proof (induction prefix marker out w rule: list_loop.induct)
  case (1 prefix lastKey out w)
  obtain r w1 where bl: "bucket_List prefix [] lastKey 1000 w = (r, w1)"
    by (cases "bucket_List prefix [] lastKey 1000 w")
  then have f: "objects w1 = objects w" "mutations w1 = mutations w"
    by (auto simp: bucket_List_def invoke_def mutations_def mutating_def Let_def
        split: bool.splits)
  show ?case
  proof (cases r)
    case (Inl err)
    with bl f show ?thesis by (subst (1 2) list_loop.simps) simp
  next
    case (Inr p)
    obtain results truncated where p: "p = (results, truncated)" by (cases p)
    show ?thesis
    proof (cases truncated)
      case False
      with bl f Inr p show ?thesis by (subst (1 2) list_loop.simps) simp
    next
      case True
      let ?lk = "if results = [] then lastKey else Key (last results)"
      from "1.IH"[OF bl[symmetric, unfolded Inr p] refl refl, of ?lk] True
      have "objects (snd (list_loop prefix ?lk (out @ results) w1)) = objects w1 \<and>
            mutations (snd (list_loop prefix ?lk (out @ results) w1)) = mutations w1"
        by simp
      with bl f Inr p True show ?thesis
        by (subst (1 2) list_loop.simps) (simp add: Let_def)
    qed
  qed
qed

lemma list_bucket_frame:
  "objects (snd (list_bucket prefix w)) = objects w \<and>
   mutations (snd (list_bucket prefix w)) = mutations w"
  by (simp add: list_bucket_def Let_def list_loop_frame)

lemma select_paths_frame:
  "objects (snd (select_paths b cont paths w)) = objects w \<and>
   calls (snd (select_paths b cont paths w)) = calls w"
proof (induction paths arbitrary: w)
  case Nil
  show ?case by simp
next
  case (Cons p paths)
  show ?case
  proof (cases "cont p")
    case None
    with Cons.IH[of "log (LogMissingPath p (name b)) w"] show ?thesis by simp
  next
    case (Some key)
    obtain ks w' where r: "select_paths b cont paths w = (ks, w')"
      by (cases "select_paths b cont paths w")
    with Cons.IH[of w] Some show ?thesis by simp
  qed
qed

text \<open>
  In dry-run mode \<open>Put\<close>, \<open>DeleteMany\<close>, \<open>DeletePrefix\<close> and \<open>DeleteMatching\<close> make no call
  that changes the bucket and leave its objects as they are.
\<close>

lemma dry_run_inert:
  assumes "dryRun b"
  shows "(\<exists>r w'. Put h b fileName path w = Some (Returns (r, w')) \<and>
        mutations w' = mutations w \<and> objects w' = objects w) \<and>
     mutations (snd (DeleteMany b paths w)) = mutations w \<and>
     objects (snd (DeleteMany b paths w)) = objects w \<and>
     mutations (snd (DeletePrefix b prefix w)) = mutations w \<and>
     objects (snd (DeletePrefix b prefix w)) = objects w \<and>
     mutations (snd (DeleteMatching h b prefix expression w)) = mutations w \<and>
     objects (snd (DeleteMatching h b prefix expression w)) = objects w"
proof -
  have dg: "mutations (snd (deleteGroup b items w1)) = mutations w1 \<and>
            objects (snd (deleteGroup b items w1)) = objects w1" for items w1
    using dry_run_deleteGroup[OF assms, of items w1] by (simp add: mutations_def)
  have p: "\<exists>r w'. Put h b fileName path w = Some (Returns (r, w')) \<and>
        mutations w' = mutations w \<and> objects w' = objects w"
    using dry_run_Put[OF assms, of h fileName path w] by (auto simp: mutations_def)
  have dp: "mutations (snd (DeletePrefix b prefix w)) = mutations w \<and>
     objects (snd (DeletePrefix b prefix w)) = objects w"
    using list_bucket_frame[of prefix w]
    by (auto simp: DeletePrefix_def dg split: prod.splits)
  have dm: "mutations (snd (DeleteMatching h b prefix expression w)) = mutations w \<and>
     objects (snd (DeleteMatching h b prefix expression w)) = objects w"
    using list_bucket_frame[of prefix w]
    by (auto simp: DeleteMatching_def dg Let_def split: prod.splits sum.splits)
  have dn: "mutations (snd (DeleteMany b paths w)) = mutations w \<and>
     objects (snd (DeleteMany b paths w)) = objects w"
  proof (cases "length paths = 1")
    case True
    with assms show ?thesis by (simp add: DeleteMany_def)
  next
    case False
    obtain cont w1 where c: "contents [] w = (cont, w1)" by (cases "contents [] w")
    with list_bucket_frame[of "[]" w] have w1: "objects w1 = objects w" "mutations w1 = mutations w"
      by (auto simp: contents_def split: prod.splits)
    obtain items w2 where s: "select_paths b cont paths w1 = (items, w2)"
      by (cases "select_paths b cont paths w1")
    with select_paths_frame[of b cont paths w1]
    have w2: "objects w2 = objects w1" "mutations w2 = mutations w1"
      by (auto simp: mutations_def)
    from False show ?thesis by (simp add: DeleteMany_def c s dg w1 w2)
  qed
  from p dn dp dm show ?thesis by simp
qed

subsection \<open>DeletePrefix\<close>

text \<open>
  Outside dry-run mode and with every call answered, \<open>DeletePrefix\<close> deletes the first
  1000 keys of the listing of the prefix: all of them when they are at most 1000.
\<close>

lemma DeletePrefix_reliable:
  fixes prefix :: string and w :: world
  assumes "\<not> dryRun b" "reliable w"
  defines "L \<equiv> listed (list_prefix prefix) [] w"
  shows "fst (DeletePrefix b prefix w) = None \<and>
     keys_of (snd (DeletePrefix b prefix w)) =
       filter (\<lambda>k. k \<notin> set (take 1000 L)) (keys_of w) \<and>
     bulk_deletes (calls (snd (DeletePrefix b prefix w))) =
       bulk_deletes (calls w) @ (if L = [] then [] else [take 1000 L])"
proof -
  obtain items w1 where l: "list_bucket prefix w = (items, w1)"
    by (cases "list_bucket prefix w")
  from list_bucket_reliable[OF assms(2), of prefix] l
  have items: "items = map (key_of w) L"
    and w1: "objects w1 = objects w" "fault w1 = fault w" "mutations w1 = mutations w"
    by (auto simp: L_def)
  have rel: "reliable w1" using assms(2) w1 by (simp add: reliable_def)
  have k1: "keys_of w1 = keys_of w" using w1 by (simp add: keys_of_def)
  have b1: "bulk_deletes (calls w1) = bulk_deletes (calls w)"
    using w1 by (intro bulk_deletes_of_mutations) simp
  have d: "DeletePrefix b prefix w = deleteGroup b (map (key_of w) L) w1"
    by (simp add: DeletePrefix_def l items)
  show ?thesis
    unfolding d using deleteGroup_reliable[OF assms(1) rel, of w L] by (simp add: k1 b1)
qed

end
